theory Spec2Isabelle
  imports
    Complex_Main
    "HOL-Library.Sublist"
    "HOL-Library.Char_ord"
    "HOL-Library.List_Lexorder"
    "HOL-Library.Multiset"
begin

section \<open>Strings of the platform\<close>

text \<open>
  JavaScript strings are modelled as \<^typ>\<open>string\<close>, one \<^typ>\<open>char\<close> per character; the
  model is exact on ASCII text, where the order of characters is the order of their
  code units. An optional property (\<^verbatim>\<open>url?: string\<close>) is an \<^typ>\<open>string option\<close>,
  \<^const>\<open>None\<close> standing for \<^verbatim>\<open>undefined\<close>.
\<close>

definition toLowerChar :: "char \<Rightarrow> char" where
  "toLowerChar c =
     (if CHR ''A'' \<le> c \<and> c \<le> CHR ''Z'' then char_of (of_char c + (32::nat)) else c)"

definition toLowerCase :: "string \<Rightarrow> string" where
  "toLowerCase s = map toLowerChar s"

definition startsWith :: "string \<Rightarrow> string \<Rightarrow> bool" where
  "startsWith s p = prefix p s"

text \<open>\<^verbatim>\<open>!s\<close> for an optional string: \<^verbatim>\<open>undefined\<close> and the empty string are falsy.\<close>

fun falsyString :: "string option \<Rightarrow> bool" where
  "falsyString None = True"
| "falsyString (Some s) = (s = [])"

fun stringOr :: "string option \<Rightarrow> string \<Rightarrow> string" where
  "stringOr None d = d"
| "stringOr (Some s) d = (if s = [] then d else s)"

definition isDigit :: "char \<Rightarrow> bool" where
  "isDigit c = (CHR ''0'' \<le> c \<and> c \<le> CHR ''9'')"

definition isAlpha :: "char \<Rightarrow> bool" where
  "isAlpha c = ((CHR ''A'' \<le> c \<and> c \<le> CHR ''Z'') \<or> (CHR ''a'' \<le> c \<and> c \<le> CHR ''z''))"

definition isHexDigit :: "char \<Rightarrow> bool" where
  "isHexDigit c =
     (isDigit c \<or> (CHR ''A'' \<le> c \<and> c \<le> CHR ''F'') \<or> (CHR ''a'' \<le> c \<and> c \<le> CHR ''f''))"

definition hexValue :: "char \<Rightarrow> nat" where
  "hexValue c =
     (if isDigit c then of_char c - 48
      else if CHR ''a'' \<le> c then of_char c - 87
      else of_char c - 55)"

definition hexDigit :: "nat \<Rightarrow> char" where
  "hexDigit n = ''0123456789ABCDEF'' ! (n mod 16)"

fun splitOn :: "char \<Rightarrow> string \<Rightarrow> string list" where
  "splitOn c [] = [[]]"
| "splitOn c (x # xs) =
     (if x = c then [] # splitOn c xs
      else (case splitOn c xs of [] \<Rightarrow> [[x]] | y # ys \<Rightarrow> (x # y) # ys))"

fun joinWith :: "string \<Rightarrow> string list \<Rightarrow> string" where
  "joinWith sep [] = []"
| "joinWith sep [x] = x"
| "joinWith sep (x # y # ys) = x @ sep @ joinWith sep (y # ys)"

section \<open>The URL objects of the platform\<close>

text \<open>
  \<^verbatim>\<open>new URL(url)\<close> is the platform's parser; the normalizer reads five properties of the
  object it returns. The constructor is a parameter \<open>newURL\<close> of the model
  (\<^const>\<open>None\<close>: the constructor throws), so that everything proved for every \<open>newURL\<close>
  holds whatever the platform's parser answers.
\<close>

record URL =
  protocol :: string
  hostname :: string
  port :: string
  pathname :: string
  search :: string

text \<open>
  \<^verbatim>\<open>new URLSearchParams(init)\<close> on a string: a leading \<^verbatim>\<open>?\<close> is dropped, the rest is split
  at \<^verbatim>\<open>&\<close>, empty pieces are skipped, each piece is split at its first \<^verbatim>\<open>=\<close>, \<^verbatim>\<open>+\<close> becomes a
  space and percent escapes are decoded.
\<close>

fun percentDecode :: "string \<Rightarrow> string" where
  "percentDecode (c # h # l # rest) =
     (if c = CHR ''%'' \<and> isHexDigit h \<and> isHexDigit l
      then char_of (16 * hexValue h + hexValue l) # percentDecode rest
      else c # percentDecode (h # l # rest))"
| "percentDecode cs = cs"

definition plusToSpace :: "string \<Rightarrow> string" where
  "plusToSpace s = map (\<lambda>c. if c = CHR ''+'' then CHR '' '' else c) s"

definition parseEntry :: "string \<Rightarrow> string \<times> string" where
  "parseEntry piece =
     (let name = takeWhile (\<lambda>c. c \<noteq> CHR ''='') piece;
          val = drop 1 (dropWhile (\<lambda>c. c \<noteq> CHR ''='') piece)
      in (percentDecode (plusToSpace name), percentDecode (plusToSpace val)))"

definition URLSearchParams_new :: "string \<Rightarrow> (string \<times> string) list" where
  "URLSearchParams_new init =
     map parseEntry
       (filter (\<lambda>piece. piece \<noteq> [])
          (splitOn (CHR ''&'') (if startsWith init ''?'' then tl init else init)))"

text \<open>
  \<^verbatim>\<open>URLSearchParams.toString()\<close>: every character but letters, digits and \<^verbatim>\<open>*-._\<close> is
  percent-encoded (a space becomes \<^verbatim>\<open>+\<close>), the entries are written \<^verbatim>\<open>name=value\<close> and
  joined by \<^verbatim>\<open>&\<close>.
\<close>

definition urlencodeChar :: "char \<Rightarrow> string" where
  "urlencodeChar c =
     (if c = CHR '' '' then ''+''
      else if isAlpha c \<or> isDigit c \<or> c \<in> set ''*-._'' then [c]
      else [CHR ''%'', hexDigit (of_char c div 16), hexDigit (of_char c mod 16)])"

definition urlencode :: "string \<Rightarrow> string" where
  "urlencode s = concat (map urlencodeChar s)"

definition URLSearchParams_toString :: "(string \<times> string) list \<Rightarrow> string" where
  "URLSearchParams_toString entries =
     joinWith ''&'' (map (\<lambda>(name, val). urlencode name @ ''='' @ urlencode val) entries)"

text \<open>
  \<^verbatim>\<open>Array.prototype.sort()\<close> with no comparator, on an array of \<^verbatim>\<open>[key, value]\<close> arrays:
  each element is converted to a string, which for an array is its elements joined by a
  comma, the strings are compared by code units, and the sort is stable.
\<close>

definition entryString :: "string \<times> string \<Rightarrow> string" where
  "entryString e = fst e @ '','' @ snd e"

definition sortEntries :: "(string \<times> string) list \<Rightarrow> (string \<times> string) list" where
  "sortEntries entries = sort_key entryString entries"

section \<open>The duplicate detector\<close>

subsection \<open>normalizeUrl\<close>

definition normalizeUrl :: "(string \<Rightarrow> URL option) \<Rightarrow> string \<Rightarrow> string" where
  "normalizeUrl newURL url =
     (case newURL url of
        None \<Rightarrow> url
      | Some urlObj \<Rightarrow>
          (let normalized = protocol urlObj @ ''//'' @ toLowerCase (hostname urlObj);
               normalized =
                 (if port urlObj \<noteq> [] \<and>
                     \<not> (protocol urlObj = ''http:'' \<and> port urlObj = ''80'') \<and>
                     \<not> (protocol urlObj = ''https:'' \<and> port urlObj = ''443'')
                  then normalized @ '':'' @ port urlObj
                  else normalized);
               normalized = normalized @ pathname urlObj;
               normalized =
                 (if search urlObj \<noteq> []
                  then normalized @ ''?'' @
                    URLSearchParams_toString (sortEntries (URLSearchParams_new (search urlObj)))
                  else normalized)
           in normalized))"

subsection \<open>areTabsDuplicate\<close>

text \<open>
  A \<^verbatim>\<open>chrome.tabs.Tab\<close>, with the properties the repository reads. \<^verbatim>\<open>groupId\<close> is
  \<open>TAB_GROUP_ID_NONE\<close> for a tab in no group.
\<close>

record Tab =
  t_id :: "int option"
  t_windowId :: "int option"
  t_url :: "string option"
  t_title :: "string option"
  t_groupId :: int

definition TAB_GROUP_ID_NONE :: int where
  "TAB_GROUP_ID_NONE = - 1"

text \<open>\<^verbatim>\<open>tab.id || 0\<close>; \<^verbatim>\<open>!tab.id\<close> holds exactly when this is 0.\<close>

definition idOr0 :: "Tab \<Rightarrow> int" where
  "idOr0 tab = (case t_id tab of None \<Rightarrow> 0 | Some i \<Rightarrow> i)"

text \<open>
  The comparator, with the calls of \<^const>\<open>normalizeUrl\<close> it makes: the second component
  lists the arguments \<^const>\<open>normalizeUrl\<close> is invoked on, in order.
\<close>

definition areTabsDuplicate_run ::
    "(string \<Rightarrow> URL option) \<Rightarrow> Tab \<Rightarrow> Tab \<Rightarrow> bool \<times> string list" where
  "areTabsDuplicate_run newURL tab1 tab2 =
     (if falsyString (t_url tab1) \<or> falsyString (t_url tab2) then (False, [])
      else
        (let url1 = stringOr (t_url tab1) []; url2 = stringOr (t_url tab2) [] in
         if startsWith url1 ''chrome://'' \<or> startsWith url1 ''edge://'' \<or>
            startsWith url2 ''chrome://'' \<or> startsWith url2 ''edge://''
         then (False, [])
         else if url1 = ''about:blank'' \<or> url2 = ''about:blank'' \<or>
                 url1 = ''chrome://newtab/'' \<or> url2 = ''chrome://newtab/'' \<or>
                 url1 = ''edge://newtab/'' \<or> url2 = ''edge://newtab/''
         then (False, [])
         else (normalizeUrl newURL url1 = normalizeUrl newURL url2, [url1, url2])))"

definition areTabsDuplicate :: "(string \<Rightarrow> URL option) \<Rightarrow> Tab \<Rightarrow> Tab \<Rightarrow> bool" where
  "areTabsDuplicate newURL tab1 tab2 = fst (areTabsDuplicate_run newURL tab1 tab2)"

subsection \<open>identifyDuplicateGroups\<close>

record DuplicateGroup =
  original :: Tab
  duplicates :: "Tab list"

text \<open>
  The inner loop over \<open>j\<close>: the tabs still to visit, the set \<open>assignedTabs\<close> and the
  array \<open>duplicates\<close> built so far.
\<close>

fun innerLoop ::
    "(string \<Rightarrow> URL option) \<Rightarrow> Tab \<Rightarrow> Tab list \<Rightarrow> int set \<Rightarrow> Tab list \<Rightarrow> Tab list \<times> int set" where
  "innerLoop newURL tab [] assignedTabs dups = (dups, assignedTabs)"
| "innerLoop newURL tab (otherTab # rest) assignedTabs dups =
     (if idOr0 otherTab = 0 \<or> t_id otherTab = t_id tab \<or> idOr0 otherTab \<in> assignedTabs
      then innerLoop newURL tab rest assignedTabs dups
      else if areTabsDuplicate newURL tab otherTab
      then innerLoop newURL tab rest (insert (idOr0 otherTab) assignedTabs) (dups @ [otherTab])
      else innerLoop newURL tab rest assignedTabs dups)"

text \<open>The outer loop over \<open>i\<close>: \<open>tabs\<close> is the whole array, the third argument what is left of it.\<close>

fun outerLoop ::
    "(string \<Rightarrow> URL option) \<Rightarrow> Tab list \<Rightarrow> Tab list \<Rightarrow> int set \<Rightarrow> DuplicateGroup list \<Rightarrow>
     DuplicateGroup list" where
  "outerLoop newURL tabs [] assignedTabs duplicateGroups = duplicateGroups"
| "outerLoop newURL tabs (tab # rest) assignedTabs duplicateGroups =
     (if idOr0 tab = 0 \<or> idOr0 tab \<in> assignedTabs
      then outerLoop newURL tabs rest assignedTabs duplicateGroups
      else
        (case innerLoop newURL tab tabs assignedTabs [] of
           (dups, assignedTabs') \<Rightarrow>
             if length dups > 0
             then outerLoop newURL tabs rest (insert (idOr0 tab) assignedTabs')
                    (duplicateGroups @ [\<lparr>original = tab, duplicates = dups\<rparr>])
             else outerLoop newURL tabs rest assignedTabs' duplicateGroups))"

definition identifyDuplicateGroups ::
    "(string \<Rightarrow> URL option) \<Rightarrow> Tab list \<Rightarrow> DuplicateGroup list" where
  "identifyDuplicateGroups newURL tabs = outerLoop newURL tabs tabs {} []"


section \<open>The browser\<close>

text \<open>
  The host browser is the state the group manager works on: the open tabs, the tab groups,
  the current window and the number of random numbers drawn so far. The operations of
  \<^verbatim>\<open>chrome.tabs\<close> and \<^verbatim>\<open>chrome.tabGroups\<close> that the repository calls are functions on this
  state; a rejected promise is a result \<^term>\<open>Inl e\<close>, and the state is returned in either
  case, since what was changed before an exception stays changed.
\<close>

datatype error = Error string

datatype Color = grey | blue | red | yellow | green | pink | purple | cyan | orange

record TabGroup =
  g_id :: int
  g_windowId :: int
  g_title :: "string option"
  g_color :: Color
  g_collapsed :: bool

record Browser =
  b_tabs :: "Tab list"
  b_groups :: "TabGroup list"
  b_currentWindow :: int
  b_draws :: nat

record UpdateProperties =
  u_collapsed :: "bool option"
  u_color :: "Color option"
  u_title :: "string option"

definition chrome_tabs_get :: "Browser \<Rightarrow> int \<Rightarrow> error + Tab" where
  "chrome_tabs_get b tabId =
     (case find (\<lambda>t. t_id t = Some tabId) (b_tabs b) of
        None \<Rightarrow> Inl (Error ''No tab with id'')
      | Some t \<Rightarrow> Inr t)"

text \<open>\<^verbatim>\<open>chrome.tabs.query({ windowId })\<close>; an undefined \<^verbatim>\<open>windowId\<close> filters nothing.\<close>

definition chrome_tabs_query_windowId :: "Browser \<Rightarrow> int option \<Rightarrow> Tab list" where
  "chrome_tabs_query_windowId b windowId =
     (case windowId of
        None \<Rightarrow> b_tabs b
      | Some w \<Rightarrow> filter (\<lambda>t. t_windowId t = Some w) (b_tabs b))"

definition chrome_tabs_query_currentWindow :: "Browser \<Rightarrow> Tab list" where
  "chrome_tabs_query_currentWindow b =
     filter (\<lambda>t. t_windowId t = Some (b_currentWindow b)) (b_tabs b)"

definition chrome_tabGroups_query :: "Browser \<Rightarrow> int option \<Rightarrow> TabGroup list" where
  "chrome_tabGroups_query b windowId =
     (case windowId of
        None \<Rightarrow> b_groups b
      | Some w \<Rightarrow> filter (\<lambda>g. g_windowId g = w) (b_groups b))"

definition hasTab :: "Browser \<Rightarrow> int \<Rightarrow> bool" where
  "hasTab b tabId = list_ex (\<lambda>t. t_id t = Some tabId) (b_tabs b)"

text \<open>A group id that no group and no tab of the browser uses; it is at least 1.\<close>

definition freshGroupId :: "Browser \<Rightarrow> int" where
  "freshGroupId b = 1 + fold max (map g_id (b_groups b) @ map t_groupId (b_tabs b)) 0"

definition inIds :: "int list \<Rightarrow> Tab \<Rightarrow> bool" where
  "inIds tabIds t = (case t_id t of None \<Rightarrow> False | Some i \<Rightarrow> i \<in> set tabIds)"

definition moveTabs :: "int list \<Rightarrow> int \<Rightarrow> int \<Rightarrow> Tab list \<Rightarrow> Tab list" where
  "moveTabs tabIds groupId windowId tabs =
     map (\<lambda>t. if inIds tabIds t then t\<lparr>t_groupId := groupId, t_windowId := Some windowId\<rparr> else t)
       tabs"

text \<open>The browser removes a group when its last tab has left it.\<close>

definition pruneGroups :: "Browser \<Rightarrow> Browser" where
  "pruneGroups b =
     b\<lparr>b_groups := filter (\<lambda>g. list_ex (\<lambda>t. t_groupId t = g_id g) (b_tabs b)) (b_groups b)\<rparr>"

text \<open>
  \<^verbatim>\<open>chrome.tabs.group({ tabIds, groupId })\<close>: with no \<^verbatim>\<open>groupId\<close> the tabs form a new, untitled
  group in the current window; with a \<^verbatim>\<open>groupId\<close> they join that group. It rejects when a
  tab or the group does not exist.
\<close>

definition chrome_tabs_group ::
    "int list \<Rightarrow> int option \<Rightarrow> Browser \<Rightarrow> (error + int) \<times> Browser" where
  "chrome_tabs_group tabIds groupId b =
     (if tabIds = [] then (Inl (Error ''No tabs to group''), b)
      else if list_all (hasTab b) tabIds
      then
        (case groupId of
           None \<Rightarrow>
             (let g = freshGroupId b in
              (Inr g,
               pruneGroups
                 (b\<lparr>b_tabs := moveTabs tabIds g (b_currentWindow b) (b_tabs b),
                    b_groups := b_groups b @
                      [\<lparr>g_id = g, g_windowId = b_currentWindow b, g_title = None,
                        g_color = grey, g_collapsed = False\<rparr>]\<rparr>)))
         | Some g \<Rightarrow>
             (case find (\<lambda>gr. g_id gr = g) (b_groups b) of
                None \<Rightarrow> (Inl (Error ''No group with id''), b)
              | Some gr \<Rightarrow>
                  (Inr g,
                   pruneGroups (b\<lparr>b_tabs := moveTabs tabIds g (g_windowId gr) (b_tabs b)\<rparr>))))
      else (Inl (Error ''No tab with id''), b))"

definition applyUpdate :: "UpdateProperties \<Rightarrow> TabGroup \<Rightarrow> TabGroup" where
  "applyUpdate props g =
     g\<lparr>g_collapsed := (case u_collapsed props of None \<Rightarrow> g_collapsed g | Some c \<Rightarrow> c),
       g_color := (case u_color props of None \<Rightarrow> g_color g | Some c \<Rightarrow> c),
       g_title := (case u_title props of None \<Rightarrow> g_title g | Some t \<Rightarrow> Some t)\<rparr>"

definition chrome_tabGroups_update ::
    "int \<Rightarrow> UpdateProperties \<Rightarrow> Browser \<Rightarrow> (error + TabGroup) \<times> Browser" where
  "chrome_tabGroups_update groupId props b =
     (case find (\<lambda>g. g_id g = groupId) (b_groups b) of
        None \<Rightarrow> (Inl (Error ''No group with id''), b)
      | Some g \<Rightarrow>
          (Inr (applyUpdate props g),
           b\<lparr>b_groups :=
               map (\<lambda>g'. if g_id g' = groupId then applyUpdate props g' else g') (b_groups b)\<rparr>))"

section \<open>The platform besides the browser\<close>

text \<open>
  What else the code asks of its environment, as parameters: the URL parser, the random
  numbers (\<open>p_random n\<close> is \<^verbatim>\<open>Math.floor(Math.random() * 9)\<close> at the \<open>n\<close>-th draw), the
  formatted time of day at the \<open>i\<close>-th group of a run, the stored settings, the text a
  content script extracts from a tab, and the completion service behind \<^verbatim>\<open>_callLLM\<close>
  (\<open>p_callLLM n prompt\<close> is the outcome of the \<open>n\<close>-th call of an operation).
\<close>

record LLMSettings =
  llmProvider :: string
  llmApiKey :: string
  llmEndpoint :: string

record Platform =
  p_newURL :: "string \<Rightarrow> URL option"
  p_random :: "nat \<Rightarrow> nat"
  p_timeString :: "nat \<Rightarrow> string"
  p_settings :: "error + LLMSettings"
  p_tabContent :: "int \<Rightarrow> error + string"
  p_callLLM :: "nat \<Rightarrow> string \<Rightarrow> error + string"

fun showNat :: "nat \<Rightarrow> string" where
  "showNat n =
     (if n < 10 then [char_of (48 + n)] else showNat (n div 10) @ [char_of (48 + n mod 10)])"

declare showNat.simps [simp del]

definition showInt :: "int \<Rightarrow> string" where
  "showInt i = (if i < 0 then ''-'' @ showNat (nat (- i)) else showNat (nat i))"

section \<open>The group manager\<close>

record GroupOptions =
  o_title :: "string option"
  o_color :: "Color option"
  o_collapsed :: "bool option"

definition colors :: "Color list" where
  "colors = [red, blue, yellow, green, pink, purple, cyan, orange, grey]"

definition getRandomColor :: "Platform \<Rightarrow> Browser \<Rightarrow> Color \<times> Browser" where
  "getRandomColor P b =
     (colors ! (p_random P (b_draws b) mod length colors), b\<lparr>b_draws := Suc (b_draws b)\<rparr>)"

definition truthyString :: "string option \<Rightarrow> bool" where
  "truthyString s = (\<not> falsyString s)"

definition createGroup :: "int list \<Rightarrow> GroupOptions \<Rightarrow> Browser \<Rightarrow> (error + int) \<times> Browser" where
  "createGroup tabIds options b =
     (if tabIds = [] then (Inl (Error ''No tabs specified for group creation''), b)
      else
        (case chrome_tabs_group tabIds None b of
           (Inl e, b1) \<Rightarrow> (Inl e, b1)
         | (Inr groupId, b1) \<Rightarrow>
             if truthyString (o_title options) \<or> o_color options \<noteq> None
             then
               (case chrome_tabGroups_update groupId
                       \<lparr>u_collapsed = None, u_color = o_color options,
                        u_title = (if truthyString (o_title options) then o_title options else None)\<rparr>
                       b1 of
                  (Inl e, b2) \<Rightarrow> (Inl e, b2)
                | (Inr g, b2) \<Rightarrow> (Inr groupId, b2))
             else (Inr groupId, b1)))"

definition addTabsToGroup :: "int \<Rightarrow> int list \<Rightarrow> Browser \<Rightarrow> (error + unit) \<times> Browser" where
  "addTabsToGroup groupId tabIds b =
     (if tabIds = [] then (Inl (Error ''No tabs specified to add to group''), b)
      else
        (case chrome_tabs_group tabIds (Some groupId) b of
           (Inl e, b1) \<Rightarrow> (Inl e, b1)
         | (Inr g, b1) \<Rightarrow> (Inr (), b1)))"

text \<open>
  The test the groupers share: \<^verbatim>\<open>!tab.url || tab.url.startsWith('chrome://') ||
  tab.url.startsWith('edge://') || tab.url === 'about:blank'\<close>.
\<close>

definition specialPage :: "Tab \<Rightarrow> bool" where
  "specialPage tab =
     (falsyString (t_url tab) \<or> startsWith (stringOr (t_url tab) []) ''chrome://'' \<or>
      startsWith (stringOr (t_url tab) []) ''edge://'' \<or> t_url tab = Some ''about:blank'')"

definition stripWww :: "string \<Rightarrow> string" where
  "stripWww domain = (if startsWith domain ''www.'' then drop 4 domain else domain)"

text \<open>The domain of a tab's URL, \<^const>\<open>None\<close> when \<^verbatim>\<open>new URL\<close> throws.\<close>

definition domainOf :: "Platform \<Rightarrow> Tab \<Rightarrow> string option" where
  "domainOf P tab =
     (case p_newURL P (stringOr (t_url tab) []) of
        None \<Rightarrow> None
      | Some url \<Rightarrow> Some (stripWww (hostname url)))"

subsection \<open>groupTabByDomain\<close>

definition sameDomainTabs :: "Platform \<Rightarrow> int \<Rightarrow> string \<Rightarrow> Tab list \<Rightarrow> Tab list" where
  "sameDomainTabs P tabId domain windowTabs =
     filter
       (\<lambda>t. if falsyString (t_url t) \<or> t_id t = Some tabId \<or> t_groupId t \<noteq> TAB_GROUP_ID_NONE
            then False
            else domainOf P t = Some domain)
       windowTabs"

definition definedIds :: "Tab list \<Rightarrow> int list" where
  "definedIds tabs = concat (map (\<lambda>t. case t_id t of None \<Rightarrow> [] | Some i \<Rightarrow> [i]) tabs)"

definition groupTabByDomain :: "Platform \<Rightarrow> int \<Rightarrow> Browser \<Rightarrow> (error + int option) \<times> Browser" where
  "groupTabByDomain P tabId b =
     (case chrome_tabs_get b tabId of
        Inl e \<Rightarrow> (Inl e, b)
      | Inr tab \<Rightarrow>
          if t_groupId tab \<noteq> TAB_GROUP_ID_NONE \<or> specialPage tab then (Inr None, b)
          else
            (case domainOf P tab of
               None \<Rightarrow> (Inl (Error ''Invalid URL''), b)
             | Some domain \<Rightarrow>
                 (case find (\<lambda>g. g_title g = Some domain)
                         (chrome_tabGroups_query b (t_windowId tab)) of
                    Some found \<Rightarrow>
                      (case addTabsToGroup (g_id found) [tabId] b of
                         (Inl e, b1) \<Rightarrow> (Inl e, b1)
                       | (Inr u, b1) \<Rightarrow> (Inr (Some (g_id found)), b1))
                  | None \<Rightarrow>
                      (let same = sameDomainTabs P tabId domain
                                    (chrome_tabs_query_windowId b (t_windowId tab))
                       in if length same > 0
                          then
                            (case getRandomColor P b of
                               (color, b1) \<Rightarrow>
                                 (case createGroup (tabId # definedIds same)
                                         \<lparr>o_title = Some domain, o_color = Some color,
                                          o_collapsed = None\<rparr> b1 of
                                    (Inl e, b2) \<Rightarrow> (Inl e, b2)
                                  | (Inr groupId, b2) \<Rightarrow> (Inr (Some groupId), b2)))
                          else (Inr None, b)))))"

subsection \<open>groupTabsByDomain\<close>

text \<open>\<^verbatim>\<open>Promise.all(tabIds.map(id => chrome.tabs.get(id)))\<close>: all tabs, or the first rejection.\<close>

fun getTabs :: "Browser \<Rightarrow> int list \<Rightarrow> error + Tab list" where
  "getTabs b [] = Inr []"
| "getTabs b (i # ids) =
     (case chrome_tabs_get b i of
        Inl e \<Rightarrow> Inl e
      | Inr t \<Rightarrow> (case getTabs b ids of Inl e \<Rightarrow> Inl e | Inr ts \<Rightarrow> Inr (t # ts)))"

text \<open>
  \<open>domainGroups\<close> is an object used as a dictionary, here the list of its own entries in
  the order of their insertion. A domain that names a property every object inherits finds
  that property instead of an array, \<^verbatim>\<open>push\<close> throws, and the \<^verbatim>\<open>catch\<close> skips the tab.
\<close>

definition objectPrototypeKeys :: "string list" where
  "objectPrototypeKeys =
     [''constructor'', ''__proto__'', ''toString'', ''valueOf'', ''hasOwnProperty'',
      ''isPrototypeOf'', ''propertyIsEnumerable'', ''toLocaleString'', ''__defineGetter__'',
      ''__defineSetter__'', ''__lookupGetter__'', ''__lookupSetter__'']"

fun pushTo :: "string \<Rightarrow> int option \<Rightarrow> (string \<times> int list) list \<Rightarrow> (string \<times> int list) list" where
  "pushTo domain tid [] = [(domain, case tid of None \<Rightarrow> [] | Some i \<Rightarrow> [i])]"
| "pushTo domain tid ((k, ids) # rest) =
     (if k = domain then (k, ids @ (case tid of None \<Rightarrow> [] | Some i \<Rightarrow> [i])) # rest
      else (k, ids) # pushTo domain tid rest)"

fun collectDomains ::
    "Platform \<Rightarrow> Tab list \<Rightarrow> (string \<times> int list) list \<Rightarrow> (string \<times> int list) list" where
  "collectDomains P [] domainGroups = domainGroups"
| "collectDomains P (tab # rest) domainGroups =
     (if t_groupId tab \<noteq> TAB_GROUP_ID_NONE \<or> specialPage tab
      then collectDomains P rest domainGroups
      else
        (case domainOf P tab of
           None \<Rightarrow> collectDomains P rest domainGroups
         | Some domain \<Rightarrow>
             if domain \<in> set objectPrototypeKeys then collectDomains P rest domainGroups
             else collectDomains P rest (pushTo domain (t_id tab) domainGroups)))"

record CreatedGroup =
  c_domain :: string
  c_count :: nat
  c_groupId :: int

fun createDomainGroups ::
    "Platform \<Rightarrow> (string \<times> int list) list \<Rightarrow> CreatedGroup list \<Rightarrow> Browser \<Rightarrow>
     (error + CreatedGroup list) \<times> Browser" where
  "createDomainGroups P [] createdGroups b = (Inr createdGroups, b)"
| "createDomainGroups P ((domain, groupTabIds) # rest) createdGroups b =
     (if length groupTabIds > 1
      then
        (case getRandomColor P b of
           (color, b1) \<Rightarrow>
             (case createGroup groupTabIds
                     \<lparr>o_title = Some domain, o_color = Some color, o_collapsed = None\<rparr> b1 of
                (Inl e, b2) \<Rightarrow> (Inl e, b2)
              | (Inr groupId, b2) \<Rightarrow>
                  createDomainGroups P rest
                    (createdGroups @
                       [\<lparr>c_domain = domain, c_count = length groupTabIds, c_groupId = groupId\<rparr>])
                    b2))
      else createDomainGroups P rest createdGroups b)"

definition groupTabsByDomain :: "Platform \<Rightarrow> int list \<Rightarrow> Browser \<Rightarrow> (error + string) \<times> Browser" where
  "groupTabsByDomain P tabIds b =
     (case getTabs b tabIds of
        Inl e \<Rightarrow> (Inl e, b)
      | Inr tabs \<Rightarrow>
          (case createDomainGroups P (collectDomains P tabs []) [] b of
             (Inl e, b1) \<Rightarrow> (Inl e, b1)
           | (Inr createdGroups, b1) \<Rightarrow>
               if length createdGroups = 0
               then (Inr ''No groups were created. There were no domains with multiple tabs.'', b1)
               else (Inr (''Created '' @ showNat (length createdGroups) @
                          '' groups based on domain.''), b1)))"

subsection \<open>groupByCreationTime\<close>

text \<open>
  The threshold is a JavaScript number; it is a rational here, and \<^verbatim>\<open>idDiff * 0.1\<close> is the
  exact tenth. The rounding of floating point is not modelled.
\<close>

fun timeBuckets :: "rat \<Rightarrow> Tab list \<Rightarrow> Tab list \<Rightarrow> Tab list list \<Rightarrow> error + Tab list list" where
  "timeBuckets timeWindowInMinutes currentGroup [] timeGroups =
     Inr (if length currentGroup > 1 then timeGroups @ [currentGroup] else timeGroups)"
| "timeBuckets timeWindowInMinutes currentGroup (tab # rest) timeGroups =
     (case rev currentGroup of
        [] \<Rightarrow> Inl (Error ''TypeError'')
      | prevTab # earlier \<Rightarrow>
          (let idDiff = idOr0 tab - idOr0 prevTab;
               approxTimeDiff = of_int idDiff / 10
           in if approxTimeDiff \<le> timeWindowInMinutes * 60
              then timeBuckets timeWindowInMinutes (currentGroup @ [tab]) rest timeGroups
              else timeBuckets timeWindowInMinutes [tab] rest
                     (if length currentGroup > 1 then timeGroups @ [currentGroup]
                      else timeGroups)))"

fun createTimeGroups ::
    "Platform \<Rightarrow> Tab list list \<Rightarrow> nat \<Rightarrow> int list \<Rightarrow> Browser \<Rightarrow> (error + int list) \<times> Browser" where
  "createTimeGroups P [] i createdGroupIds b = (Inr createdGroupIds, b)"
| "createTimeGroups P (groupTabs # rest) i createdGroupIds b =
     (if length (definedIds groupTabs) \<le> 1 then createTimeGroups P rest (Suc i) createdGroupIds b
      else
        (case getRandomColor P b of
           (color, b1) \<Rightarrow>
             (case createGroup (definedIds groupTabs)
                     \<lparr>o_title = Some (''Group '' @ showNat (i + 1) @ '' ('' @ p_timeString P i @ '')''),
                      o_color = Some color, o_collapsed = None\<rparr> b1 of
                (Inl e, b2) \<Rightarrow> (Inl e, b2)
              | (Inr groupId, b2) \<Rightarrow>
                  createTimeGroups P rest (Suc i) (createdGroupIds @ [groupId]) b2)))"

definition groupByCreationTime ::
    "Platform \<Rightarrow> rat \<Rightarrow> int option \<Rightarrow> Browser \<Rightarrow> (error + int list) \<times> Browser" where
  "groupByCreationTime P timeWindowInMinutes windowId b =
     (let tabs =
            (case windowId of
               None \<Rightarrow> chrome_tabs_query_currentWindow b
             | Some w \<Rightarrow>
                 if w = 0 then chrome_tabs_query_currentWindow b
                 else chrome_tabs_query_windowId b (Some w));
          eligibleTabs = filter (\<lambda>tab. t_groupId tab = TAB_GROUP_ID_NONE) tabs
      in if length eligibleTabs \<le> 1 then (Inr [], b)
         else
           (case sort_key idOr0 eligibleTabs of
              [] \<Rightarrow> (Inr [], b)
            | first # others \<Rightarrow>
                (case timeBuckets timeWindowInMinutes [first] others [] of
                   Inl e \<Rightarrow> (Inl e, b)
                 | Inr timeGroups \<Rightarrow> createTimeGroups P timeGroups 0 [] b)))"

section \<open>The LLM service\<close>

subsection \<open>Text helpers\<close>

text \<open>
  The white space of \<^verbatim>\<open>trim()\<close>, of the class \<^verbatim>\<open>\s\<close> and of \<^verbatim>\<open>parseInt\<close>, among the
  characters up to U+00FF: the space, the controls U+0009 to U+000D and the no-break space
  U+00A0.
\<close>

definition isSpace :: "char \<Rightarrow> bool" where
  "isSpace c = (c = CHR '' '' \<or> (CHR 0x09 \<le> c \<and> c \<le> CHR 0x0D) \<or> c = CHR 0xA0)"

definition newline :: char where
  "newline = CHR 0x0A"

definition trim :: "string \<Rightarrow> string" where
  "trim s = rev (dropWhile isSpace (rev (dropWhile isSpace s)))"

text \<open>\<^verbatim>\<open>s.includes(sub)\<close>.\<close>

fun includesStr :: "string \<Rightarrow> string \<Rightarrow> bool" where
  "includesStr [] sub = (sub = [])"
| "includesStr (c # cs) sub = (prefix sub (c # cs) \<or> includesStr cs sub)"

definition parseNat :: "string \<Rightarrow> nat" where
  "parseNat ds = foldl (\<lambda>a c. 10 * a + (of_char c - 48)) 0 ds"

text \<open>
  \<^verbatim>\<open>parseInt(s, 10)\<close>: leading white space, a sign, then the longest run of digits;
  \<^const>\<open>None\<close> is \<^verbatim>\<open>NaN\<close>. Numbers are exact integers here.
\<close>

definition parseInt :: "string \<Rightarrow> int option" where
  "parseInt s =
     (let s1 = dropWhile isSpace s;
          negative = startsWith s1 ''-'';
          s2 = (if startsWith s1 ''-'' \<or> startsWith s1 ''+'' then tl s1 else s1);
          ds = takeWhile isDigit s2
      in if ds = [] then None
         else Some (if negative then - int (parseNat ds) else int (parseNat ds)))"

text \<open>\<^verbatim>\<open>s.match(/\d+/g)\<close>: the maximal runs of digits, from left to right.\<close>

fun digitRuns :: "string \<Rightarrow> string \<Rightarrow> string list" where
  "digitRuns run [] = (if run = [] then [] else [run])"
| "digitRuns run (c # cs) =
     (if isDigit c then digitRuns (run @ [c]) cs
      else if run = [] then digitRuns [] cs
      else run # digitRuns [] cs)"

fun optionString :: "string option \<Rightarrow> string" where
  "optionString None = ''undefined''"
| "optionString (Some s) = s"

fun optionIntString :: "int option \<Rightarrow> string" where
  "optionIntString None = ''undefined''"
| "optionIntString (Some i) = showInt i"

subsection \<open>isConfigured\<close>

definition isConfigured :: "Platform \<Rightarrow> bool" where
  "isConfigured P =
     (case p_settings P of
        Inl e \<Rightarrow> False
      | Inr settings \<Rightarrow>
          if llmProvider settings = ''azure''
          then llmApiKey settings \<noteq> [] \<and> llmEndpoint settings \<noteq> []
          else if llmProvider settings = ''openai'' then llmApiKey settings \<noteq> []
          else if llmProvider settings = ''anthropic'' then llmApiKey settings \<noteq> []
          else if llmProvider settings = ''custom''
          then llmApiKey settings \<noteq> [] \<and> llmEndpoint settings \<noteq> []
          else False)"

subsection \<open>findSimilarTabs\<close>

definition eligibleTabs :: "int \<Rightarrow> Tab list \<Rightarrow> Tab list" where
  "eligibleTabs tabId allTabs =
     filter
       (\<lambda>tab. t_id tab \<noteq> Some tabId \<and> t_groupId tab = TAB_GROUP_ID_NONE \<and>
              truthyString (t_url tab) \<and>
              \<not> startsWith (stringOr (t_url tab) []) ''chrome://'' \<and>
              \<not> startsWith (stringOr (t_url tab) []) ''edge://'' \<and>
              t_url tab \<noteq> Some ''about:blank'')
       allTabs"

fun similarItems :: "nat \<Rightarrow> Tab list \<Rightarrow> string list" where
  "similarItems index [] = []"
| "similarItems index (tab # rest) =
     ([newline] @ ''Tab '' @ showNat (index + 1) @ '' (ID: '' @ optionIntString (t_id tab) @ ''):'' @
      [newline] @ ''Title: '' @ stringOr (t_title tab) ''Untitled'' @
      [newline] @ ''URL: '' @ stringOr (t_url tab) [] @ [newline])
     # similarItems (Suc index) rest"

definition similarPrompt :: "Tab \<Rightarrow> string \<Rightarrow> Tab list \<Rightarrow> string" where
  \<open>similarPrompt referenceTab referenceContent eligible =
     ''I have a browser tab that I want to group with similar tabs. Here's the reference tab:'' @
     [newline, newline] @ ''Reference Tab:'' @
     [newline] @ ''Title: '' @ optionString (t_title referenceTab) @
     [newline] @ ''URL: '' @ optionString (t_url referenceTab) @
     [newline] @
     (if referenceContent \<noteq> []
      then ''Content snippet: '' @ take 1000 referenceContent @ ''... (truncated)'' else []) @
     [newline, newline] @ ''And here are other tabs that might be similar:'' @
     [newline, newline] @ joinWith [newline] (similarItems 0 eligible) @
     [newline, newline] @
     ''Based on topic similarity, which of these tabs should be grouped with the reference tab?'' @
     [newline] @
     ''Please respond ONLY with the tab IDs that should be grouped with the reference tab, as a comma-separated list (e.g., "123, 456, 789").'' @
     [newline] @
     ''If none of the tabs are similar enough to group, respond with "none".''\<close>

text \<open>The body of the \<^verbatim>\<open>try\<close> block.\<close>

definition findSimilarTabs_try :: "Platform \<Rightarrow> Browser \<Rightarrow> int \<Rightarrow> error + int list" where
  "findSimilarTabs_try P b tabId =
     (if isConfigured P
      then
        (case chrome_tabs_get b tabId of
           Inl e \<Rightarrow> Inl e
         | Inr referenceTab \<Rightarrow>
             (let allTabs = chrome_tabs_query_windowId b (t_windowId referenceTab);
                  eligible = eligibleTabs tabId allTabs
              in if length eligible = 0 then Inr []
                 else
                   (case (if idOr0 referenceTab \<noteq> 0 then p_tabContent P (idOr0 referenceTab)
                          else Inr []) of
                      Inl e \<Rightarrow> Inl e
                    | Inr referenceContent \<Rightarrow>
                        (case p_callLLM P 0 (similarPrompt referenceTab referenceContent eligible) of
                           Inl e \<Rightarrow> Inl e
                         | Inr response \<Rightarrow>
                             if includesStr (toLowerCase response) ''none'' then Inr []
                             else
                               (let idMatches = digitRuns [] response
                                in if idMatches = [] then Inr []
                                   else Inr (filter
                                     (\<lambda>i. list_ex (\<lambda>tab. t_id tab = Some i) eligible)
                                     (map (\<lambda>idStr. int (parseNat idStr)) idMatches)))))))
      else Inl (Error ''LLM is not configured''))"

text \<open>The \<^verbatim>\<open>catch\<close> block logs the error and returns the empty array.\<close>

definition findSimilarTabs :: "Platform \<Rightarrow> Browser \<Rightarrow> int \<Rightarrow> error + int list" where
  "findSimilarTabs P b tabId =
     (case findSimilarTabs_try P b tabId of
        Inl e \<Rightarrow> Inr []
      | Inr similarTabIds \<Rightarrow> Inr similarTabIds)"

subsection \<open>parseGroupAnalysis\<close>

record TabDetail =
  d_id :: int
  d_title :: string
  d_url :: string
  d_content :: string

record SuggestedGroup =
  s_name :: string
  s_tabIds :: "int list"
  s_color :: "Color option"

text \<open>
  The separator \<^verbatim>\<open>/Group \d+ Name:|^[A-Za-z]+ Group:/m\<close>, matched at the head of a string: the
  length of the match. \<open>prev\<close> is the character before the position, for the \<^verbatim>\<open>^\<close> of the
  second alternative.
\<close>

definition matchGroupNName :: "string \<Rightarrow> nat option" where
  "matchGroupNName s =
     (let ds = takeWhile isDigit (drop 6 s)
      in if startsWith s ''Group '' \<and> ds \<noteq> [] \<and>
            startsWith (dropWhile isDigit (drop 6 s)) '' Name:''
         then Some (6 + length ds + 6) else None)"

definition atLineStart :: "char option \<Rightarrow> bool" where
  "atLineStart prev = (case prev of None \<Rightarrow> True | Some c \<Rightarrow> c = CHR 0x0A \<or> c = CHR 0x0D)"

definition matchWordGroup :: "char option \<Rightarrow> string \<Rightarrow> nat option" where
  "matchWordGroup prev s =
     (let ls = takeWhile isAlpha s
      in if atLineStart prev \<and> ls \<noteq> [] \<and> startsWith (dropWhile isAlpha s) '' Group:''
         then Some (length ls + 7) else None)"

definition matchHeading :: "char option \<Rightarrow> string \<Rightarrow> nat option" where
  "matchHeading prev s =
     (case matchGroupNName s of Some n \<Rightarrow> Some n | None \<Rightarrow> matchWordGroup prev s)"

text \<open>
  \<^verbatim>\<open>analysisText.split(separator)\<close>: \<open>skip\<close> counts the characters of a match still to pass
  over, \<open>piece\<close> is the piece being read.
\<close>

fun splitHeadings :: "nat \<Rightarrow> char option \<Rightarrow> string \<Rightarrow> string \<Rightarrow> string list" where
  "splitHeadings skip prev piece [] = [piece]"
| "splitHeadings skip prev piece (c # cs) =
     (if skip > 0 then splitHeadings (skip - 1) (Some c) piece cs
      else
        (case matchHeading prev (c # cs) of
           Some n \<Rightarrow> piece # splitHeadings (n - 1) (Some c) [] cs
         | None \<Rightarrow> splitHeadings 0 (Some c) (piece @ [c]) cs))"

definition restOfLine :: "string \<Rightarrow> string" where
  "restOfLine s = takeWhile (\<lambda>c. c \<noteq> newline) s"

text \<open>\<^verbatim>\<open>/Tab IDs:([^\n]+)/\<close>: the capture of the leftmost match.\<close>

fun matchTabIDs :: "string \<Rightarrow> string option" where
  "matchTabIDs [] = None"
| "matchTabIDs (c # cs) =
     (if startsWith (c # cs) ''Tab IDs:'' \<and> restOfLine (drop 8 (c # cs)) \<noteq> []
      then Some (restOfLine (drop 8 (c # cs)))
      else matchTabIDs cs)"

text \<open>\<^verbatim>\<open>/Tabs?:([^\n]+)/\<close>.\<close>

fun matchTabs :: "string \<Rightarrow> string option" where
  "matchTabs [] = None"
| "matchTabs (c # cs) =
     (if startsWith (c # cs) ''Tabs:'' \<and> restOfLine (drop 5 (c # cs)) \<noteq> []
      then Some (restOfLine (drop 5 (c # cs)))
      else if startsWith (c # cs) ''Tab:'' \<and> restOfLine (drop 4 (c # cs)) \<noteq> []
      then Some (restOfLine (drop 4 (c # cs)))
      else matchTabs cs)"

text \<open>\<^verbatim>\<open>/Tab \d+/.test(s)\<close> and \<^verbatim>\<open>s.match(/Tab (\d+)/g)\<close>, the latter as the digits of each match.\<close>

fun testTabN :: "string \<Rightarrow> bool" where
  "testTabN [] = False"
| "testTabN (c # cs) =
     ((startsWith (c # cs) ''Tab '' \<and> takeWhile isDigit (drop 4 (c # cs)) \<noteq> []) \<or> testTabN cs)"

fun matchAllTabN :: "nat \<Rightarrow> string \<Rightarrow> string list" where
  "matchAllTabN skip [] = []"
| "matchAllTabN skip (c # cs) =
     (if skip > 0 then matchAllTabN (skip - 1) cs
      else if startsWith (c # cs) ''Tab '' \<and> takeWhile isDigit (drop 4 (c # cs)) \<noteq> []
      then takeWhile isDigit (drop 4 (c # cs)) #
           matchAllTabN (3 + length (takeWhile isDigit (drop 4 (c # cs)))) cs
      else matchAllTabN 0 cs)"

text \<open>\<^verbatim>\<open>s.split(/[,\s]+/)\<close>: the pieces between maximal runs of commas and white space.\<close>

fun splitSeparators :: "bool \<Rightarrow> string \<Rightarrow> string \<Rightarrow> string list" where
  "splitSeparators inSeparator piece [] = [piece]"
| "splitSeparators inSeparator piece (c # cs) =
     (if c = CHR '','' \<or> isSpace c
      then (if inSeparator then splitSeparators True piece cs
            else piece # splitSeparators True [] cs)
      else splitSeparators False (piece @ [c]) cs)"

text \<open>The ids a \<^verbatim>\<open>Tab IDs:\<close> line lists, once the ids that are not of the batch are dropped.\<close>

definition ordinalIds :: "string \<Rightarrow> TabDetail list \<Rightarrow> int list" where
  "ordinalIds tabIdText tabBatch =
     concat (map
       (\<lambda>ds. let index = int (parseNat ds) - 1
             in if index \<ge> 0 \<and> index < int (length tabBatch)
                then [d_id (tabBatch ! nat index)] else [])
       (matchAllTabN 0 tabIdText))"

definition literalIds :: "string \<Rightarrow> TabDetail list \<Rightarrow> int list" where
  "literalIds tabIdText tabBatch =
     concat (map
       (\<lambda>idStr. case parseInt idStr of
                  None \<Rightarrow> []
                | Some i \<Rightarrow> if i \<in> set (map d_id tabBatch) then [i] else [])
       (splitSeparators False [] tabIdText))"

definition groupTabIds :: "string \<Rightarrow> TabDetail list \<Rightarrow> int list" where
  "groupTabIds tabIdText tabBatch =
     (if testTabN tabIdText then ordinalIds tabIdText tabBatch
      else literalIds tabIdText tabBatch)"

text \<open>One pass of the loop over the pieces: the group the piece yields, if any.\<close>

definition parseGroupText :: "string \<Rightarrow> TabDetail list \<Rightarrow> SuggestedGroup list" where
  "parseGroupText groupLine tabBatch =
     (let groupText = trim groupLine
      in if groupText = [] then []
         else if restOfLine groupText = [] then []
         else
           (case (case matchTabIDs groupText of
                    Some m \<Rightarrow> Some m
                  | None \<Rightarrow> matchTabs groupText) of
              None \<Rightarrow> []
            | Some tabIdMatch \<Rightarrow>
                if length (groupTabIds (trim tabIdMatch) tabBatch) \<ge> 2
                then [\<lparr>s_name = trim (restOfLine groupText),
                       s_tabIds = groupTabIds (trim tabIdMatch) tabBatch,
                       s_color = None\<rparr>]
                else []))"

definition parseGroupAnalysis :: "string \<Rightarrow> TabDetail list \<Rightarrow> SuggestedGroup list" where
  "parseGroupAnalysis analysisText tabBatch =
     concat (map (\<lambda>groupLine. parseGroupText groupLine tabBatch)
       (tl (splitHeadings 0 None [] analysisText)))"

subsection \<open>suggestTabGroups\<close>

definition tabDetail :: "Platform \<Rightarrow> Browser \<Rightarrow> int \<Rightarrow> TabDetail option" where
  "tabDetail P b tabId =
     (case chrome_tabs_get b tabId of
        Inl e \<Rightarrow> None
      | Inr tab \<Rightarrow>
          Some \<lparr>d_id = idOr0 tab,
                d_title = stringOr (t_title tab) ''Untitled'',
                d_url = stringOr (t_url tab) [],
                d_content =
                  (case p_tabContent P tabId of Inl e \<Rightarrow> [] | Inr content \<Rightarrow> take 1000 content)\<rparr>)"

fun tabBatches :: "TabDetail list \<Rightarrow> TabDetail list list" where
  "tabBatches [] = []"
| "tabBatches (x # xs) = take 10 (x # xs) # tabBatches (drop 10 (x # xs))"

fun groupItems :: "nat \<Rightarrow> TabDetail list \<Rightarrow> string list" where
  "groupItems index [] = []"
| "groupItems index (tab # rest) =
     ([newline] @ ''Tab '' @ showNat (index + 1) @ '' (ID: '' @ showInt (d_id tab) @ ''):'' @
      [newline] @ ''Title: '' @ d_title tab @
      [newline] @ ''URL: '' @ d_url tab @
      [newline] @ ''Content preview: '' @
        (if d_content tab \<noteq> [] then take 200 (d_content tab) @ ''...''
         else ''No content available'') @ [newline])
     # groupItems (Suc index) rest"

definition groupPrompt :: "TabDetail list \<Rightarrow> string" where
  \<open>groupPrompt batch =
     ''Analyze these browser tabs and suggest how they should be grouped by topic or purpose:'' @
     [newline, newline] @ joinWith [newline] (groupItems 0 batch) @
     [newline, newline] @ ''Provide your response in this format:'' @
     [newline] @ ''Group 1 Name: [suggested name]'' @
     [newline] @ ''- Tab IDs: [comma-separated list of tab IDs to include]'' @
     [newline] @ ''- Reason: [brief explanation why these tabs belong together]'' @
     [newline, newline] @ ''Group 2 Name: [suggested name] '' @
     [newline] @ ''- Tab IDs: [comma-separated list of tab IDs to include]'' @
     [newline] @ ''- Reason: [brief explanation why these tabs belong together]'' @
     [newline, newline] @ ''... and so on.'' @
     [newline, newline] @ ''Some guidelines:'' @
     [newline] @ ''- A tab should only belong to one group'' @
     [newline] @ ''- Not every tab needs to be in a group; leave obviously unrelated tabs ungrouped'' @
     [newline] @ ''- Groups should have at least 2 tabs'' @
     [newline] @ ''- Group names should be concise (1-3 words)'' @
     [newline] @ ''- Focus on content similarity, not just domain similarity''\<close>

text \<open>
  The loop over the batches; \<open>n\<close> counts the calls of the completion service. A call that
  fails is logged by the inner \<^verbatim>\<open>catch\<close>, and the loop goes on with the next batch.
\<close>

fun analyzeBatches ::
    "Platform \<Rightarrow> nat \<Rightarrow> TabDetail list list \<Rightarrow> SuggestedGroup list \<Rightarrow> SuggestedGroup list" where
  "analyzeBatches P n [] results = results"
| "analyzeBatches P n (batch # rest) results =
     (case p_callLLM P n (groupPrompt batch) of
        Inl e \<Rightarrow> analyzeBatches P (Suc n) rest results
      | Inr analysis \<Rightarrow>
          analyzeBatches P (Suc n) rest (results @ parseGroupAnalysis analysis batch))"

definition suggestTabGroups :: "Platform \<Rightarrow> Browser \<Rightarrow> int list \<Rightarrow> error + SuggestedGroup list" where
  "suggestTabGroups P b tabIds =
     (if isConfigured P
      then
        (let tabDetails = List.map_filter (tabDetail P b) tabIds
         in if length tabDetails = 0 then Inl (Error ''No valid tabs to analyze'')
            else Inr (analyzeBatches P 0 (tabBatches tabDetails) []))
      else Inl (Error ''LLM is not configured''))"

section \<open>The group manager, with the LLM service\<close>

definition groupSimilarTabs :: "Platform \<Rightarrow> int \<Rightarrow> Browser \<Rightarrow> (error + int option) \<times> Browser" where
  "groupSimilarTabs P referenceTabId b =
     (case chrome_tabs_get b referenceTabId of
        Inl e \<Rightarrow> (Inl e, b)
      | Inr tab \<Rightarrow>
          if specialPage tab then (Inr None, b)
          else
            (case findSimilarTabs P b referenceTabId of
               Inl e \<Rightarrow> (Inl e, b)
             | Inr found \<Rightarrow>
                 (let similarTabIds =
                        (if referenceTabId \<in> set found then found else referenceTabId # found)
                  in if length similarTabIds > 1
                     then
                       (case domainOf P tab of
                          None \<Rightarrow> (Inl (Error ''Invalid URL''), b)
                        | Some domain \<Rightarrow>
                            (case getRandomColor P b of
                               (color, b1) \<Rightarrow>
                                 (case createGroup similarTabIds
                                         \<lparr>o_title = Some domain, o_color = Some color,
                                          o_collapsed = None\<rparr> b1 of
                                    (Inl e, b2) \<Rightarrow> (Inl e, b2)
                                  | (Inr groupId, b2) \<Rightarrow> (Inr (Some groupId), b2))))
                     else (Inr None, b))))"

section \<open>Notions used in the statements\<close>

text \<open>All tabs that occur in a list of duplicate groups, originals and duplicates alike.\<close>

definition groupTabs :: "DuplicateGroup list \<Rightarrow> Tab list" where
  "groupTabs gs = concat (map (\<lambda>g. original g # duplicates g) gs)"

text \<open>The URLs the comparator refuses: browser-internal schemes and blank or new-tab pages.\<close>

definition internalOrBlank :: "string \<Rightarrow> bool" where
  "internalOrBlank u =
     (startsWith u ''chrome://'' \<or> startsWith u ''edge://'' \<or> u = ''about:blank'' \<or>
      u = ''chrome://newtab/'' \<or> u = ''edge://newtab/'')"

text \<open>Invariants of the outer loop of \<^const>\<open>identifyDuplicateGroups\<close>.\<close>

definition groupsInv :: "int set \<Rightarrow> DuplicateGroup list \<Rightarrow> bool" where
  "groupsInv A gs =
     (distinct (map idOr0 (groupTabs gs)) \<and> set (map idOr0 (groupTabs gs)) \<subseteq> A \<and>
      0 \<notin> set (map idOr0 (groupTabs gs)))"

definition groupsWf :: "(string \<Rightarrow> URL option) \<Rightarrow> Tab list \<Rightarrow> DuplicateGroup list \<Rightarrow> bool" where
  "groupsWf U ts gs =
     (\<forall>g\<in>set gs. original g \<in> set ts \<and> duplicates g \<noteq> [] \<and>
        (\<forall>d\<in>set (duplicates g). d \<in> set ts \<and> areTabsDuplicate U (original g) d \<and>
           t_id d \<noteq> t_id (original g)))"

text \<open>
  The ids the similarity search may return for a reference tab: the ids, other than the
  reference tab's, of the ungrouped tabs of its window that are no internal or blank pages.
\<close>
definition knownEligible :: "Browser \<Rightarrow> int \<Rightarrow> int \<Rightarrow> bool" where
  "knownEligible b referenceTabId i =
     (i \<noteq> referenceTabId \<and>
      (case chrome_tabs_get b referenceTabId of
         Inl e \<Rightarrow> False
       | Inr referenceTab \<Rightarrow>
           list_ex
             (\<lambda>t. t_id t = Some i \<and> t_groupId t = TAB_GROUP_ID_NONE \<and> \<not> specialPage t \<and>
                  (t_windowId referenceTab = None \<or> t_windowId t = t_windowId referenceTab))
             (b_tabs b)))"

text \<open>The ids of the tabs of a group.\<close>

definition groupMembers :: "Browser \<Rightarrow> int \<Rightarrow> int option list" where
  "groupMembers b groupId = map t_id (filter (\<lambda>t. t_groupId t = groupId) (b_tabs b))"

text \<open>Notions for the domain grouper.\<close>

text \<open>What a tab adds to \<open>domainGroups\<close>: its domain and its id, if the loop does not skip it.\<close>

definition contribution :: "Platform \<Rightarrow> Tab \<Rightarrow> (string \<times> int option) option" where
  "contribution P tab =
     (if t_groupId tab \<noteq> TAB_GROUP_ID_NONE \<or> specialPage tab then None
      else
        (case domainOf P tab of
           None \<Rightarrow> None
         | Some domain \<Rightarrow>
             if domain \<in> set objectPrototypeKeys then None else Some (domain, t_id tab)))"

definition idsFor :: "Platform \<Rightarrow> string \<Rightarrow> Tab list \<Rightarrow> int list" where
  "idsFor P domain tabs =
     concat (map (\<lambda>t. case contribution P t of
                         Some (d, Some i) \<Rightarrow> if d = domain then [i] else []
                       | _ \<Rightarrow> []) tabs)"

definition lookupIds :: "(string \<times> int list) list \<Rightarrow> string \<Rightarrow> int list" where
  "lookupIds dg d = (case map_of dg d of None \<Rightarrow> [] | Some ids \<Rightarrow> ids)"

text \<open>
  How a run of the domain grouper changes a tab: a tab with one of the ids \<open>M\<close> keeps its id and
  URL and is in a group afterwards, every other tab is unchanged.
\<close>

definition regrouped :: "int list \<Rightarrow> Tab \<Rightarrow> Tab \<Rightarrow> bool" where
  "regrouped M t t' =
     (if inIds M t
      then t_id t' = t_id t \<and> t_url t' = t_url t \<and> t_groupId t' \<noteq> TAB_GROUP_ID_NONE
      else t' = t)"

definition multiIds :: "(string \<times> int list) list \<Rightarrow> int list" where
  "multiIds dg = concat (map snd (filter (\<lambda>e. length (snd e) > 1) dg))"

text \<open>
  Completions in the format the prompt asks for. A section is a heading \<^verbatim>\<open>Group N Name:\<close>, the
  name on the rest of the line, a line \<^verbatim>\<open>- Tab IDs:\<close> and a line \<^verbatim>\<open>- Reason:\<close>; a completion
  is an introduction followed by sections. The line of the tabs lists, separated by a comma
  and a space, either ids in decimal or references \<^verbatim>\<open>Tab N\<close> to the \<open>N\<close>-th tab of the batch,
  counted from 1. A name is well formed when it is not empty, has no white space at either
  end and no line break, and contains neither \<^verbatim>\<open>Group\<close> nor \<^verbatim>\<open>Tab IDs:\<close>; the introduction
  and the reasons are any text without \<^verbatim>\<open>Group\<close>.
\<close>

text \<open>The characters of an id as \<^const>\<open>showInt\<close> writes it.\<close>

definition idChar :: "char \<Rightarrow> bool" where
  "idChar c = (isDigit c \<or> c = CHR ''-'')"

definition idsLine :: "int list \<Rightarrow> string" where
  "idsLine ids = joinWith '', '' (map showInt ids)"

definition validIds :: "TabDetail list \<Rightarrow> int list \<Rightarrow> int list" where
  "validIds tabBatch ids = filter (\<lambda>i. i \<in> set (map d_id tabBatch)) ids"

definition tabRef :: "nat \<Rightarrow> string" where
  "tabRef n = ''Tab '' @ showNat n"

definition ordinalLine :: "nat list \<Rightarrow> string" where
  "ordinalLine ns = joinWith '', '' (map tabRef ns)"

text \<open>The ids of the tabs that the numbers refer to; a number that is no position of the batch
  refers to nothing.\<close>

definition validOrdinals :: "TabDetail list \<Rightarrow> nat list \<Rightarrow> int list" where
  "validOrdinals tabBatch ns =
     concat (map (\<lambda>n. if 1 \<le> n \<and> n \<le> length tabBatch then [d_id (tabBatch ! (n - 1))] else [])
       ns)"

datatype TabRefs = Ids "int list" | TabNumbers "nat list"

fun refsLine :: "TabRefs \<Rightarrow> string" where
  "refsLine (Ids ids) = idsLine ids"
| "refsLine (TabNumbers ns) = ordinalLine ns"

fun validRefs :: "TabDetail list \<Rightarrow> TabRefs \<Rightarrow> int list" where
  "validRefs tabBatch (Ids ids) = validIds tabBatch ids"
| "validRefs tabBatch (TabNumbers ns) = validOrdinals tabBatch ns"

definition wellFormedName :: "string \<Rightarrow> bool" where
  "wellFormedName name =
     (name \<noteq> [] \<and> \<not> isSpace (hd name) \<and> \<not> isSpace (last name) \<and> newline \<notin> set name \<and>
      \<not> includesStr name ''Group'' \<and> \<not> includesStr name ''Tab IDs:'')"

definition bodyText :: "string \<Rightarrow> string \<Rightarrow> string \<Rightarrow> string" where
  "bodyText name line reason =
     '' '' @ name @ [newline] @ ''- Tab IDs: '' @ line @ [newline] @
     ''- Reason: '' @ reason @ [newline, newline]"

definition headingText :: "nat \<Rightarrow> string" where
  "headingText n = ''Group '' @ showNat n @ '' Name:''"

text \<open>What follows a stretch of text without a heading: a heading, or the end.\<close>

definition headingOrEnd :: "string \<Rightarrow> bool" where
  "headingOrEnd t = (t = [] \<or> (\<exists>n rest. t = headingText n @ rest))"

record Section =
  sec_number :: nat
  sec_name :: string
  sec_refs :: TabRefs
  sec_reason :: string

definition sectionText :: "Section \<Rightarrow> string" where
  "sectionText sec =
     headingText (sec_number sec) @
     bodyText (sec_name sec) (refsLine (sec_refs sec)) (sec_reason sec)"

definition wellFormedSection :: "Section \<Rightarrow> bool" where
  "wellFormedSection sec =
     (wellFormedName (sec_name sec) \<and> \<not> includesStr (sec_reason sec) ''Group'')"

definition completionText :: "string \<Rightarrow> Section list \<Rightarrow> string" where
  "completionText intro secs = intro @ concat (map sectionText secs)"

text \<open>The group a section stands for: none when it lists fewer than two tabs of the batch.\<close>

definition groupOf :: "TabDetail list \<Rightarrow> Section \<Rightarrow> SuggestedGroup list" where
  "groupOf tabBatch sec =
     (if 2 \<le> card (set (validRefs tabBatch (sec_refs sec)))
      then [\<lparr>s_name = sec_name sec, s_tabIds = validRefs tabBatch (sec_refs sec), s_color = None\<rparr>]
      else [])"

subsection \<open>Concrete inputs\<close>

text \<open>
  A parser for the concrete URLs of the examples. On an ASCII URL of the shape
  \<^verbatim>\<open>http(s)://host[:port][/path][?query][#fragment]\<close> (no user information, no dot
  segments, no character the platform would escape, the port without leading zeros) it
  returns the properties the platform's \<^verbatim>\<open>URL\<close> object has: the scheme and the host in
  lower case, the port empty when it is the default of the scheme, the path \<^verbatim>\<open>/\<close> when
  there is none. It stands for the platform on such URLs only.
\<close>

definition isPathStart :: "char \<Rightarrow> bool" where
  "isPathStart c = (c = CHR ''/'' \<or> c = CHR ''?'' \<or> c = CHR ''#'')"

definition simpleURL :: "string \<Rightarrow> URL option" where
  "simpleURL s =
     (let scheme = toLowerCase (takeWhile (\<lambda>c. c \<noteq> CHR '':'') s);
          rest = dropWhile (\<lambda>c. c \<noteq> CHR '':'') s;
          afterSlashes = drop 3 rest;
          authority = takeWhile (\<lambda>c. \<not> isPathStart c) afterSlashes;
          tail1 = dropWhile (\<lambda>c. \<not> isPathStart c) afterSlashes;
          host = takeWhile (\<lambda>c. c \<noteq> CHR '':'') authority;
          portText = drop 1 (dropWhile (\<lambda>c. c \<noteq> CHR '':'') authority);
          path = takeWhile (\<lambda>c. c \<noteq> CHR ''?'' \<and> c \<noteq> CHR ''#'') tail1;
          tail2 = dropWhile (\<lambda>c. c \<noteq> CHR ''?'' \<and> c \<noteq> CHR ''#'') tail1;
          query =
            (if startsWith tail2 ''?'' then takeWhile (\<lambda>c. c \<noteq> CHR ''#'') (tl tail2) else [])
      in if (scheme = ''http'' \<or> scheme = ''https'') \<and> startsWith rest ''://'' \<and>
            host \<noteq> [] \<and> list_all isDigit portText
         then Some \<lparr>protocol = scheme @ '':'',
                    hostname = toLowerCase host,
                    port = (if (scheme = ''http'' \<and> portText = ''80'') \<or>
                               (scheme = ''https'' \<and> portText = ''443'') then [] else portText),
                    pathname = (if path = [] then ''/'' else path),
                    search = (if query = [] then [] else ''?'' @ query)\<rparr>
         else None)"

text \<open>An ungrouped tab of window 1 with the given id and URL.\<close>

definition exampleTab :: "int \<Rightarrow> string \<Rightarrow> Tab" where
  "exampleTab i u =
     \<lparr>t_id = Some i, t_windowId = Some 1, t_url = Some u, t_title = None,
      t_groupId = TAB_GROUP_ID_NONE\<rparr>"

text \<open>A browser with the given tabs, no group, window 1 current, and no random number drawn.\<close>

definition exampleBrowser :: "Tab list \<Rightarrow> Browser" where
  "exampleBrowser ts = \<lparr>b_tabs = ts, b_groups = [], b_currentWindow = 1, b_draws = 0\<rparr>"

text \<open>The id and the group of every tab of a browser, in the order of the tabs.\<close>

definition idsAndGroups :: "Browser \<Rightarrow> (int option \<times> int) list" where
  "idsAndGroups b = map (\<lambda>t. (t_id t, t_groupId t)) (b_tabs b)"

text \<open>
  A platform with the OpenAI provider configured, pages without text and a completion
  service that answers every prompt with \<open>reply\<close>.
\<close>

definition examplePlatform :: "(error + string) \<Rightarrow> Platform" where
  "examplePlatform reply =
     \<lparr>p_newURL = simpleURL, p_random = (\<lambda>n. n), p_timeString = (\<lambda>i. ''10:30 AM''),
      p_settings = Inr \<lparr>llmProvider = ''openai'', llmApiKey = ''key'', llmEndpoint = []\<rparr>,
      p_tabContent = (\<lambda>i. Inr []), p_callLLM = (\<lambda>n prompt. reply)\<rparr>"

text \<open>A batch of tab details with the given ids.\<close>

definition exampleBatch :: "int list \<Rightarrow> TabDetail list" where
  "exampleBatch ids = map (\<lambda>i. \<lparr>d_id = i, d_title = ''Untitled'', d_url = [], d_content = []\<rparr>) ids"

section \<open>Properties of the duplicate detector\<close>

subsection \<open>The loops\<close>

lemma groupTabs_simps [simp]:
  "groupTabs [] = []"
  "groupTabs (gs @ hs) = groupTabs gs @ groupTabs hs"
  "groupTabs [g] = original g # duplicates g"
  by (simp_all add: groupTabs_def)

lemma idOr0_inj: "idOr0 a \<noteq> 0 \<Longrightarrow> idOr0 a = idOr0 b \<Longrightarrow> t_id a = t_id b"
  by (auto simp: idOr0_def split: option.splits)

lemma distinct_map_comp: "distinct (map (\<lambda>x. f (g x)) xs) \<Longrightarrow> distinct (map g xs)"
  by (induction xs) auto

text \<open>
  What one scan adds: tabs of the list with ids that are new, pairwise different, not 0 and
  not the id of the scanning tab, each a duplicate of the scanning tab.
\<close>

lemma innerLoop_adds:
  "innerLoop U tab xs A ds = (ds', A') \<Longrightarrow>
   \<exists>new. ds' = ds @ new \<and> A' = A \<union> set (map idOr0 new) \<and> distinct (map idOr0 new) \<and>
     set (map idOr0 new) \<inter> A = {} \<and> 0 \<notin> set (map idOr0 new) \<and>
     idOr0 tab \<notin> set (map idOr0 new) \<and> set new \<subseteq> set xs \<and>
     (\<forall>d\<in>set new. areTabsDuplicate U tab d \<and> t_id d \<noteq> t_id tab)"
proof (induction xs arbitrary: A ds)
  case Nil
  then show ?case by simp
next
  case (Cons y ys)
  show ?case
  proof (cases "idOr0 y = 0 \<or> t_id y = t_id tab \<or> idOr0 y \<in> A \<or> \<not> areTabsDuplicate U tab y")
    case True
    with Cons.prems have "innerLoop U tab ys A ds = (ds', A')"
      by (auto split: if_splits)
    from Cons.IH[OF this] show ?thesis by auto
  next
    case False
    with Cons.prems
    have "innerLoop U tab ys (insert (idOr0 y) A) (ds @ [y]) = (ds', A')"
      by (auto split: if_splits)
    from Cons.IH[OF this] obtain new where n:
      "ds' = (ds @ [y]) @ new" "A' = insert (idOr0 y) A \<union> set (map idOr0 new)"
      "distinct (map idOr0 new)" "set (map idOr0 new) \<inter> insert (idOr0 y) A = {}"
      "0 \<notin> set (map idOr0 new)" "idOr0 tab \<notin> set (map idOr0 new)" "set new \<subseteq> set ys"
      "\<forall>d\<in>set new. areTabsDuplicate U tab d \<and> t_id d \<noteq> t_id tab"
      by blast
    from False have ne: "idOr0 y \<noteq> idOr0 tab"
      by (auto simp: idOr0_def split: option.splits)
    show ?thesis
      apply (rule exI[of _ "y # new"])
      using n False ne by auto
  qed
qed

lemma outerLoop_inv:
  "groupsInv A gs \<Longrightarrow> \<exists>A'. groupsInv A' (outerLoop U ts xs A gs)"
proof (induction xs arbitrary: A gs)
  case Nil
  then show ?case by auto
next
  case (Cons x xs)
  show ?case
  proof (cases "idOr0 x = 0 \<or> idOr0 x \<in> A")
    case True
    then show ?thesis using Cons.IH[OF Cons.prems] by auto
  next
    case False
    obtain ds' A' where il: "innerLoop U x ts A [] = (ds', A')"
      by (cases "innerLoop U x ts A []")
    from innerLoop_adds[OF il] have n:
      "A' = A \<union> set (map idOr0 ds')" "distinct (map idOr0 ds')"
      "set (map idOr0 ds') \<inter> A = {}" "0 \<notin> set (map idOr0 ds')"
      "idOr0 x \<notin> set (map idOr0 ds')"
      by auto
    show ?thesis
    proof (cases "length ds' > 0")
      case True
      have "groupsInv (insert (idOr0 x) A') (gs @ [\<lparr>original = x, duplicates = ds'\<rparr>])"
        using Cons.prems n False unfolding groupsInv_def
        by (auto simp: image_iff subset_iff disjoint_iff) blast+
      from Cons.IH[OF this] show ?thesis using il True False by simp
    next
      case F2: False
      have "groupsInv A' gs" using Cons.prems n unfolding groupsInv_def by auto
      from Cons.IH[OF this] show ?thesis using il F2 False by simp
    qed
  qed
qed

lemma innerLoop_none:
  "\<forall>y\<in>set xs. idOr0 y = 0 \<or> t_id y = t_id tab \<or> idOr0 y \<in> A \<or> \<not> areTabsDuplicate U tab y \<Longrightarrow>
   innerLoop U tab xs A ds = (ds, A)"
  by (induction xs) auto

lemma innerLoop_append:
  "innerLoop U tab (xs @ ys) A ds =
     (case innerLoop U tab xs A ds of (ds', A') \<Rightarrow> innerLoop U tab ys A' ds')"
  by (induction xs arbitrary: A ds) auto

lemma outerLoop_skip:
  "\<forall>x\<in>set xs. idOr0 x = 0 \<or> idOr0 x \<in> A \<or> innerLoop U x ts A [] = ([], A) \<Longrightarrow>
   outerLoop U ts (xs @ rest) A gs = outerLoop U ts rest A gs"
  by (induction xs) auto

lemma outerLoop_wf:
  "set xs \<subseteq> set ts \<Longrightarrow> groupsWf U ts gs \<Longrightarrow> groupsWf U ts (outerLoop U ts xs A gs)"
proof (induction xs arbitrary: A gs)
  case Nil
  then show ?case by simp
next
  case (Cons x xs)
  obtain ds' A' where il: "innerLoop U x ts A [] = (ds', A')"
    by (cases "innerLoop U x ts A []")
  from innerLoop_adds[OF il] have n: "set ds' \<subseteq> set ts"
    "\<forall>d\<in>set ds'. areTabsDuplicate U x d \<and> t_id d \<noteq> t_id x" by auto
  have "ds' \<noteq> [] \<Longrightarrow> groupsWf U ts (gs @ [\<lparr>original = x, duplicates = ds'\<rparr>])"
    using Cons.prems n unfolding groupsWf_def by auto
  then show ?case using Cons il by auto
qed

lemma areTabsDuplicate_commute: "areTabsDuplicate U t1 t2 = areTabsDuplicate U t2 t1"
  by (auto simp: areTabsDuplicate_def areTabsDuplicate_run_def Let_def)

lemma no_match_no_group:
  assumes "x \<in> set ts"
    and nm: "\<forall>y\<in>set ts. t_id y \<noteq> t_id x \<longrightarrow> \<not> areTabsDuplicate U x y"
  shows "x \<notin> set (groupTabs (identifyDuplicateGroups U ts))"
proof
  assume "x \<in> set (groupTabs (identifyDuplicateGroups U ts))"
  then obtain g where g: "g \<in> set (identifyDuplicateGroups U ts)"
    "x = original g \<or> x \<in> set (duplicates g)"
    by (auto simp: groupTabs_def)
  have "groupsWf U ts (identifyDuplicateGroups U ts)"
    unfolding identifyDuplicateGroups_def by (rule outerLoop_wf) (simp_all add: groupsWf_def)
  with g(1) have w: "original g \<in> set ts" "duplicates g \<noteq> []"
    "\<forall>d\<in>set (duplicates g). d \<in> set ts \<and> areTabsDuplicate U (original g) d \<and>
           t_id d \<noteq> t_id (original g)" by (auto simp: groupsWf_def)
  from g(2) show False
  proof
    assume "x = original g"
    moreover from w(2) obtain d where "d \<in> set (duplicates g)"
      by (cases "duplicates g") auto
    ultimately show False using w(3) nm by blast
  next
    assume "x \<in> set (duplicates g)"
    with w(3) have "areTabsDuplicate U (original g) x" "t_id x \<noteq> t_id (original g)" by auto
    then show False using nm w(1) areTabsDuplicate_commute[of U x "original g"] by metis
  qed
qed

lemma three_tabs:
  assumes ts: "ts = p @ a # q @ b # r @ c # s" and d: "distinct ts"
    and ids: "idOr0 a \<noteq> 0" "idOr0 b \<noteq> 0" "idOr0 c \<noteq> 0"
      "t_id a \<noteq> t_id b" "t_id a \<noteq> t_id c" "t_id b \<noteq> t_id c"
    and dup: "areTabsDuplicate U a b" "areTabsDuplicate U a c"
    and others: "\<forall>x\<in>set ts. \<forall>y\<in>set ts. areTabsDuplicate U x y \<and> t_id x \<noteq> t_id y \<longrightarrow>
                   x \<in> {a, b, c} \<and> y \<in> {a, b, c}"
  shows "identifyDuplicateGroups U ts = [\<lparr>original = a, duplicates = [b, c]\<rparr>]"
proof -
  let ?G = "[\<lparr>original = a, duplicates = [b, c]\<rparr>]"
  let ?A = "{idOr0 a, idOr0 b, idOr0 c}"
  have notin: "\<And>x. x \<in> set p \<union> set q \<union> set r \<union> set s \<Longrightarrow> x \<notin> {a, b, c} \<and> x \<in> set ts"
    using d ts by auto
  have abc: "a \<in> set ts" "b \<in> set ts" "c \<in> set ts" using ts by auto
  have nb: "idOr0 a \<noteq> idOr0 b" "idOr0 a \<noteq> idOr0 c" "idOr0 b \<noteq> idOr0 c"
    using ids by (auto dest: idOr0_inj)
  \<comment> \<open>a tab outside the three finds no duplicate, whatever is assigned\<close>
  have lone: "innerLoop U x ts A [] = ([], A)"
    if "x \<in> set p \<union> set q \<union> set r \<union> set s" for x A
  proof -
    from notin[OF that] have "x \<notin> {a, b, c}" "x \<in> set ts" by simp_all
    with others have "\<forall>y\<in>set ts. t_id y = t_id x \<or> \<not> areTabsDuplicate U x y" by metis
    then show ?thesis by (intro innerLoop_none) blast
  qed
  \<comment> \<open>the scan for \<open>a\<close> passes over every tab outside the three\<close>
  have none_a:
    "\<forall>y\<in>set ys. idOr0 y = 0 \<or> t_id y = t_id a \<or> idOr0 y \<in> A \<or> \<not> areTabsDuplicate U a y"
    if "set ys \<subseteq> set p \<union> set q \<union> set r \<union> set s" for ys A
  proof
    fix y assume "y \<in> set ys"
    with that notin have "y \<notin> {a, b, c}" "y \<in> set ts" by blast+
    with others abc(1) have "t_id y = t_id a \<or> \<not> areTabsDuplicate U a y" by metis
    then show "idOr0 y = 0 \<or> t_id y = t_id a \<or> idOr0 y \<in> A \<or> \<not> areTabsDuplicate U a y"
      by blast
  qed
  have seg: "innerLoop U a p A ds = (ds, A)" "innerLoop U a q A ds = (ds, A)"
    "innerLoop U a r A ds = (ds, A)" "innerLoop U a s A ds = (ds, A)" for A ds
    by (rule innerLoop_none, rule none_a, blast)+
  have scan_a: "innerLoop U a ts {} [] = ([b, c], {idOr0 b, idOr0 c})"
    unfolding ts using ids nb dup
    by (simp add: innerLoop_append seg insert_commute)
  have "identifyDuplicateGroups U ts = outerLoop U ts (a # q @ b # r @ c # s) {} []"
    unfolding identifyDuplicateGroups_def
    by (subst (2) ts, rule outerLoop_skip) (simp add: lone)
  also have "\<dots> = outerLoop U ts (q @ b # r @ c # s) ?A ?G"
    using ids scan_a by simp
  also have "\<dots> = outerLoop U ts (b # r @ c # s) ?A ?G"
    by (rule outerLoop_skip) (simp add: lone)
  also have "\<dots> = outerLoop U ts (r @ c # s) ?A ?G"
    by simp
  also have "\<dots> = outerLoop U ts (c # s) ?A ?G"
    by (rule outerLoop_skip) (simp add: lone)
  also have "\<dots> = outerLoop U ts (s @ []) ?A ?G"
    by simp
  also have "\<dots> = ?G"
    by (subst outerLoop_skip) (simp_all add: lone)
  finally show ?thesis .
qed

subsection \<open>No tab is assigned twice\<close>

text \<open>
  Claim C1. For every input list of tabs, no tab id occurs twice among the originals and
  duplicates of all groups that \<^const>\<open>identifyDuplicateGroups\<close> returns; in particular the
  duplicate sets of two groups are disjoint. A tab without an id occurs in no group, neither
  as original nor as duplicate.
\<close>

theorem identifyDuplicateGroups_disjoint:
  "distinct (map t_id (groupTabs (identifyDuplicateGroups newURL tabs))) \<and>
   None \<notin> set (map t_id (groupTabs (identifyDuplicateGroups newURL tabs)))"
proof -
  let ?gs = "identifyDuplicateGroups newURL tabs"
  have "groupsInv {} []" by (simp add: groupsInv_def)
  from outerLoop_inv[OF this] obtain A' where "groupsInv A' ?gs"
    unfolding identifyDuplicateGroups_def by blast
  then have d: "distinct (map idOr0 (groupTabs ?gs))"
    and z: "0 \<notin> set (map idOr0 (groupTabs ?gs))"
    by (auto simp: groupsInv_def)
  from d have "distinct (map t_id (groupTabs ?gs))"
    unfolding idOr0_def by (rule distinct_map_comp)
  moreover from z have "None \<notin> set (map t_id (groupTabs ?gs))"
    by (force simp: idOr0_def split: option.splits)
  ultimately show ?thesis by simp
qed


subsection \<open>The first tab met is the original\<close>

text \<open>
  Claim C3. Let a list of distinct tabs contain \<open>a\<close>, \<open>b\<close>, \<open>c\<close> in this order, with ids that
  differ, mutually duplicate, and let no other two tabs of the list be duplicates of each
  other. Then \<^const>\<open>identifyDuplicateGroups\<close> returns exactly one group, with original \<open>a\<close>
  and duplicates \<open>[b, c]\<close> in this order. And for every list: a tab of the list that is a
  duplicate of no other tab of the list occurs in no group at all.
\<close>

theorem identifyDuplicateGroups_first_is_original:
  "(ts = p @ a # q @ b # r @ c # s \<and> distinct ts \<and>
    idOr0 a \<noteq> 0 \<and> idOr0 b \<noteq> 0 \<and> idOr0 c \<noteq> 0 \<and>
    t_id a \<noteq> t_id b \<and> t_id a \<noteq> t_id c \<and> t_id b \<noteq> t_id c \<and>
    areTabsDuplicate newURL a b \<and> areTabsDuplicate newURL a c \<and> areTabsDuplicate newURL b c \<and>
    (\<forall>x\<in>set ts. \<forall>y\<in>set ts. areTabsDuplicate newURL x y \<and> t_id x \<noteq> t_id y \<longrightarrow>
       x \<in> {a, b, c} \<and> y \<in> {a, b, c})
    \<longrightarrow> identifyDuplicateGroups newURL ts = [\<lparr>original = a, duplicates = [b, c]\<rparr>]) \<and>
   (x \<in> set ts \<and> (\<forall>y\<in>set ts. t_id y \<noteq> t_id x \<longrightarrow> \<not> areTabsDuplicate newURL x y)
    \<longrightarrow> x \<notin> set (groupTabs (identifyDuplicateGroups newURL ts)))"
  using three_tabs[of ts p a q b r c s newURL] no_match_no_group[of x ts newURL] by blast

theorem identifyDuplicateGroups_first_is_original_witness:
  "identifyDuplicateGroups simpleURL
     [exampleTab 7 ''https://other.org/'',
      exampleTab 1 ''https://Example.com/a?x=1&y=2#top'',
      exampleTab 2 ''https://example.com:443/a?y=2&x=1'',
      exampleTab 9 ''about:blank'',
      exampleTab 3 ''https://example.com/a?x=1&y=2'']
   = [\<lparr>original = exampleTab 1 ''https://Example.com/a?x=1&y=2#top'',
       duplicates = [exampleTab 2 ''https://example.com:443/a?y=2&x=1'',
                     exampleTab 3 ''https://example.com/a?x=1&y=2'']\<rparr>] \<and>
   exampleTab 7 ''https://other.org/'' \<notin> set (groupTabs (identifyDuplicateGroups simpleURL
     [exampleTab 7 ''https://other.org/'',
      exampleTab 1 ''https://Example.com/a?x=1&y=2#top'',
      exampleTab 2 ''https://example.com:443/a?y=2&x=1'',
      exampleTab 9 ''about:blank'',
      exampleTab 3 ''https://example.com/a?x=1&y=2'']))"
proof -
  let ?x = "exampleTab 7 ''https://other.org/''"
  let ?a = "exampleTab 1 ''https://Example.com/a?x=1&y=2#top''"
  let ?b = "exampleTab 2 ''https://example.com:443/a?y=2&x=1''"
  let ?y = "exampleTab 9 ''about:blank''"
  let ?c = "exampleTab 3 ''https://example.com/a?x=1&y=2''"
  let ?ts = "[?x, ?a, ?b, ?y, ?c]"
  have shape: "?ts = [?x] @ ?a # [] @ ?b # [?y] @ ?c # []" by simp
  have d: "distinct ?ts" by code_simp
  have ids: "idOr0 ?a \<noteq> 0" "idOr0 ?b \<noteq> 0" "idOr0 ?c \<noteq> 0"
    "t_id ?a \<noteq> t_id ?b" "t_id ?a \<noteq> t_id ?c" "t_id ?b \<noteq> t_id ?c"
    by (simp_all add: idOr0_def exampleTab_def)
  have dup: "areTabsDuplicate simpleURL ?a ?b" "areTabsDuplicate simpleURL ?a ?c"
    "areTabsDuplicate simpleURL ?b ?c"
    by code_simp+
  have others: "\<forall>x\<in>set ?ts. \<forall>y\<in>set ?ts. areTabsDuplicate simpleURL x y \<and> t_id x \<noteq> t_id y \<longrightarrow>
       x \<in> {?a, ?b, ?c} \<and> y \<in> {?a, ?b, ?c}"
    by code_simp
  have x: "?x \<in> set ?ts" by simp
  have lone: "\<forall>y\<in>set ?ts. t_id y \<noteq> t_id ?x \<longrightarrow> \<not> areTabsDuplicate simpleURL ?x y"
    by code_simp
  show ?thesis
    using identifyDuplicateGroups_first_is_original
      [of ?ts "[?x]" ?a "[]" ?b "[?y]" ?c "[]" simpleURL ?x]
      shape d ids dup others x lone
    by blast
qed

subsection \<open>The comparator\<close>

text \<open>
  Claim C4. When the URL of at least one of the two tabs is a browser-internal URL
  (\<^verbatim>\<open>chrome://\<close>, \<^verbatim>\<open>edge://\<close>) or a blank or new-tab page, \<^const>\<open>areTabsDuplicate\<close> returns
  false, also when both tabs have the same URL, and it has called \<^const>\<open>normalizeUrl\<close> on
  nothing.
\<close>

theorem areTabsDuplicate_internal:
  "(t_url tab1 = Some u \<or> t_url tab2 = Some u) \<and> internalOrBlank u \<Longrightarrow>
   \<not> areTabsDuplicate newURL tab1 tab2 \<and> snd (areTabsDuplicate_run newURL tab1 tab2) = []"
  by (auto simp: areTabsDuplicate_def areTabsDuplicate_run_def internalOrBlank_def Let_def
      split: option.splits)

theorem areTabsDuplicate_internal_witness:
  "\<not> areTabsDuplicate simpleURL (exampleTab 1 ''chrome://newtab/'') (exampleTab 2 ''chrome://newtab/'') \<and>
   snd (areTabsDuplicate_run simpleURL (exampleTab 1 ''chrome://newtab/'')
     (exampleTab 2 ''chrome://newtab/'')) = []"
proof -
  have "t_url (exampleTab 1 ''chrome://newtab/'') = Some ''chrome://newtab/''"
    by (simp add: exampleTab_def)
  moreover have "internalOrBlank ''chrome://newtab/''"
    by (simp add: internalOrBlank_def)
  ultimately show ?thesis
    using areTabsDuplicate_internal
      [of "exampleTab 1 ''chrome://newtab/''" "''chrome://newtab/''"
          "exampleTab 2 ''chrome://newtab/''" simpleURL]
    by blast
qed

text \<open>
  Claim C10. The comparator is symmetric: \<^const>\<open>areTabsDuplicate\<close> gives the same verdict on
  \<open>(tab1, tab2)\<close> and on \<open>(tab2, tab1)\<close>, for every pair of tabs.
\<close>

theorem areTabsDuplicate_symmetric:
  "areTabsDuplicate newURL tab1 tab2 = areTabsDuplicate newURL tab2 tab1"
  by (auto simp: areTabsDuplicate_def areTabsDuplicate_run_def Let_def)


section \<open>Properties of the normalizer\<close>

text \<open>
  What \<^const>\<open>normalizeUrl\<close> identifies, for every parser: host names that differ in case,
  an explicit default port, and query parameters in another order as long as no parameter
  name holds a comma. It separates URLs whose schemes differ.
\<close>

lemma append_sep_inj:
  "c \<notin> set xs \<Longrightarrow> c \<notin> set ys \<Longrightarrow> xs @ c # us = ys @ c # vs \<Longrightarrow> xs = ys \<and> us = vs"
proof (induction xs arbitrary: ys)
  case Nil
  then show ?case by (cases ys) auto
next
  case (Cons x xs)
  then show ?case by (cases ys) auto
qed

lemma entryString_inj:
  "CHR '','' \<notin> set (fst e1) \<Longrightarrow> CHR '','' \<notin> set (fst e2) \<Longrightarrow>
   entryString e1 = entryString e2 \<Longrightarrow> e1 = e2"
  using append_sep_inj[of "CHR '',''" "fst e1" "fst e2" "snd e1" "snd e2"]
  by (simp add: entryString_def prod_eq_iff)

lemma filter_key_eq:
  assumes "\<forall>e\<in>set zs. CHR '','' \<notin> set (fst e)" "CHR '','' \<notin> set (fst k)"
  shows "filter (\<lambda>x. entryString k = entryString x) zs = replicate (count (mset zs) k) k"
  using assms(1)
proof (induction zs)
  case Nil
  then show ?case by simp
next
  case (Cons z zs)
  then show ?case using entryString_inj[of k z] assms(2) by auto
qed

lemma sortEntries_perm:
  assumes m: "mset es1 = mset es2" and nc: "\<forall>e\<in>set es1. CHR '','' \<notin> set (fst e)"
  shows "sortEntries es1 = sortEntries es2"
proof -
  have s: "set es2 = set es1" using m by (metis set_mset_mset)
  have "sort_key entryString es2 = sort_key entryString es1"
  proof (rule properties_for_sort_key)
    show "mset (sort_key entryString es1) = mset es2" using m by simp
    show "sorted (map entryString (sort_key entryString es1))" by simp
    fix k assume "k \<in> set (sort_key entryString es1)"
    then have k: "CHR '','' \<notin> set (fst k)" using nc by simp
    have "filter (\<lambda>x. entryString k = entryString x) (sort_key entryString es1)
          = replicate (count (mset (sort_key entryString es1)) k) k"
      by (rule filter_key_eq) (use nc k in auto)
    also have "\<dots> = replicate (count (mset es2) k) k" using m by simp
    also have "\<dots> = filter (\<lambda>x. entryString k = entryString x) es2"
      by (rule filter_key_eq[symmetric]) (use nc k s in auto)
    finally show "filter (\<lambda>x. entryString k = entryString x) (sort_key entryString es1)
          = filter (\<lambda>x. entryString k = entryString x) es2" .
  qed
  then show ?thesis by (simp add: sortEntries_def)
qed

lemma normalizeUrl_query_order:
  assumes "newURL u1 = Some o1" "newURL u2 = Some o2"
    and "protocol o1 = protocol o2" "hostname o1 = hostname o2" "port o1 = port o2"
      "pathname o1 = pathname o2" "search o1 = [] \<longleftrightarrow> search o2 = []"
    and "mset (URLSearchParams_new (search o1)) = mset (URLSearchParams_new (search o2))"
    and "\<forall>e\<in>set (URLSearchParams_new (search o1)). CHR '','' \<notin> set (fst e)"
  shows "normalizeUrl newURL u1 = normalizeUrl newURL u2"
  using assms sortEntries_perm[OF assms(8,9)] by (simp add: normalizeUrl_def Let_def)

lemma normalizeUrl_hostname_case:
  assumes "newURL u1 = Some o1" "newURL u2 = Some o2"
    and "o2 = o1\<lparr>hostname := h\<rparr>" "toLowerCase h = toLowerCase (hostname o1)"
  shows "normalizeUrl newURL u1 = normalizeUrl newURL u2"
  using assms by (simp add: normalizeUrl_def Let_def)

lemma normalizeUrl_default_port:
  assumes "newURL u1 = Some o1" "newURL u2 = Some o2"
    and "port o1 = []" "o2 = o1\<lparr>port := p\<rparr>"
    and "p = [] \<or> (protocol o1 = ''http:'' \<and> p = ''80'') \<or> (protocol o1 = ''https:'' \<and> p = ''443'')"
  shows "normalizeUrl newURL u1 = normalizeUrl newURL u2"
  using assms by (auto simp add: normalizeUrl_def Let_def)

lemma normalizeUrl_scheme:
  assumes "newURL u1 = Some o1" "newURL u2 = Some o2"
    and "protocol o1 = s1 @ '':''" "protocol o2 = s2 @ '':''"
    and "CHR '':'' \<notin> set s1" "CHR '':'' \<notin> set s2" "s1 \<noteq> s2"
  shows "normalizeUrl newURL u1 \<noteq> normalizeUrl newURL u2"
proof
  assume e: "normalizeUrl newURL u1 = normalizeUrl newURL u2"
  have "\<exists>r. normalizeUrl newURL u1 = s1 @ CHR '':'' # r"
    using assms(1,3) by (simp add: normalizeUrl_def Let_def)
  moreover have "\<exists>r. normalizeUrl newURL u2 = s2 @ CHR '':'' # r"
    using assms(2,4) by (simp add: normalizeUrl_def Let_def)
  ultimately obtain r1 r2 where "s1 @ CHR '':'' # r1 = s2 @ CHR '':'' # r2" using e by metis
  from append_sep_inj[OF assms(5,6) this] assms(7) show False by simp
qed

lemma normalizeUrl_examples:
  "normalizeUrl simpleURL ''http://example.com/'' = normalizeUrl simpleURL ''http://example.com:80/''"
  "normalizeUrl simpleURL ''http://Example.com:443/a?b=1&a=2'' \<noteq>
   normalizeUrl simpleURL ''https://example.com/a?a=2&b=1''"
  by code_simp+

text \<open>
  Claim C2. URLs that differ only in the order of their query parameters, in the case of the
  host name or in an explicit default port are to have equal canonical strings. The code
  sorts the parameters with the default comparison of \<^verbatim>\<open>Array.prototype.sort\<close>, which
  compares the entries as the strings \<^verbatim>\<open>key,value\<close>: the entries \<^verbatim>\<open>("a", "b,c")\<close> and
  \<^verbatim>\<open>("a,b", "c")\<close> compare equal, the stable sort leaves them in the order of the input, and
  the two URLs below, which differ only in the order of these two parameters, get different
  canonical strings.
\<close>

theorem normalizeUrl_query_order_diverges:
  "normalizeUrl simpleURL ''http://e.com/?a=b,c&a,b=c'' = ''http://e.com/?a=b%2Cc&a%2Cb=c'' \<and>
   normalizeUrl simpleURL ''http://e.com/?a,b=c&a=b,c'' = ''http://e.com/?a%2Cb=c&a=b%2Cc'' \<and>
   URLSearchParams_new ''?a,b=c&a=b,c'' = rev (URLSearchParams_new ''?a=b,c&a,b=c'')"
  by code_simp


section \<open>Properties of the group manager\<close>

subsection \<open>Time windows\<close>

text \<open>
  Claim C9. Five ungrouped tabs with the ids 1, 2, 3, 1000, 1001, in any order in the
  window, and the threshold of a sixth of a minute, for which the gaps of more than 100
  ids separate: \<^const>\<open>groupByCreationTime\<close> creates exactly two groups, one of the tabs
  1, 2, 3 and one of the tabs 1000, 1001. With a sixth tab of id 5000 it creates the same
  two groups, and the tab 5000 stays in no group: its bucket of one tab is discarded.
\<close>

theorem groupByCreationTime_example:
  "fst (groupByCreationTime P (1 / 6) None
     (exampleBrowser [exampleTab 1000 ''https://d.org/'', exampleTab 2 ''https://b.org/'',
        exampleTab 1 ''https://a.org/'', exampleTab 1001 ''https://e.org/'',
        exampleTab 3 ''https://c.org/''])) = Inr [1, 2] \<and>
   idsAndGroups (snd (groupByCreationTime P (1 / 6) None
     (exampleBrowser [exampleTab 1000 ''https://d.org/'', exampleTab 2 ''https://b.org/'',
        exampleTab 1 ''https://a.org/'', exampleTab 1001 ''https://e.org/'',
        exampleTab 3 ''https://c.org/'']))) =
     [(Some 1000, 2), (Some 2, 1), (Some 1, 1), (Some 1001, 2), (Some 3, 1)] \<and>
   map g_id (b_groups (snd (groupByCreationTime P (1 / 6) None
     (exampleBrowser [exampleTab 1000 ''https://d.org/'', exampleTab 2 ''https://b.org/'',
        exampleTab 1 ''https://a.org/'', exampleTab 1001 ''https://e.org/'',
        exampleTab 3 ''https://c.org/''])))) = [1, 2] \<and>
   fst (groupByCreationTime P (1 / 6) None
     (exampleBrowser [exampleTab 1000 ''https://d.org/'', exampleTab 2 ''https://b.org/'',
        exampleTab 5000 ''https://f.org/'', exampleTab 1 ''https://a.org/'',
        exampleTab 1001 ''https://e.org/'', exampleTab 3 ''https://c.org/''])) = Inr [1, 2] \<and>
   idsAndGroups (snd (groupByCreationTime P (1 / 6) None
     (exampleBrowser [exampleTab 1000 ''https://d.org/'', exampleTab 2 ''https://b.org/'',
        exampleTab 5000 ''https://f.org/'', exampleTab 1 ''https://a.org/'',
        exampleTab 1001 ''https://e.org/'', exampleTab 3 ''https://c.org/'']))) =
     [(Some 1000, 2), (Some 2, 1), (Some 5000, TAB_GROUP_ID_NONE), (Some 1, 1),
      (Some 1001, 2), (Some 3, 1)] \<and>
   map g_id (b_groups (snd (groupByCreationTime P (1 / 6) None
     (exampleBrowser [exampleTab 1000 ''https://d.org/'', exampleTab 2 ''https://b.org/'',
        exampleTab 5000 ''https://f.org/'', exampleTab 1 ''https://a.org/'',
        exampleTab 1001 ''https://e.org/'', exampleTab 3 ''https://c.org/''])))) = [1, 2]"
  by code_simp

text \<open>The buckets themselves, before any group is created.\<close>

lemma timeBuckets_example:
  "timeBuckets (1 / 6) [exampleTab 1 u1]
     [exampleTab 2 u2, exampleTab 3 u3, exampleTab 1000 u4, exampleTab 1001 u5,
      exampleTab 5000 u6] [] =
   Inr [[exampleTab 1 u1, exampleTab 2 u2, exampleTab 3 u3],
        [exampleTab 1000 u4, exampleTab 1001 u5]]"
  by (simp add: exampleTab_def idOr0_def)


section \<open>Properties of the LLM service\<close>

subsection \<open>Failures of the completion service\<close>

lemma findSimilarTabs_total: "\<exists>ids. findSimilarTabs P b tabId = Inr ids"
  by (simp add: findSimilarTabs_def split: sum.splits)

lemma findSimilarTabs_llm_fails:
  assumes "\<forall>n prompt. isl (p_callLLM P n prompt)"
  shows "findSimilarTabs P b tabId = Inr []"
proof -
  have "\<And>prompt r. p_callLLM P 0 prompt \<noteq> Inr r"
    using assms by (metis sum.disc(2))
  then show ?thesis
    by (auto simp: findSimilarTabs_def findSimilarTabs_try_def Let_def split: sum.splits if_splits)
qed

lemma analyzeBatches_all_fail:
  "\<forall>n prompt. isl (p_callLLM P n prompt) \<Longrightarrow> analyzeBatches P n batches results = results"
proof (induction batches arbitrary: n)
  case Nil
  then show ?case by simp
next
  case (Cons batch rest)
  from Cons.prems obtain e where "p_callLLM P n (groupPrompt batch) = Inl e"
    by (metis isl_def)
  with Cons show ?case by simp
qed

lemma groupSimilarTabs_llm_fails:
  assumes "\<forall>n prompt. isl (p_callLLM P n prompt)"
  shows "groupSimilarTabs P tabId b =
           (case chrome_tabs_get b tabId of Inl e \<Rightarrow> (Inl e, b) | Inr tab \<Rightarrow> (Inr None, b))"
  using findSimilarTabs_llm_fails[OF assms, of b tabId]
  by (simp add: groupSimilarTabs_def split: sum.splits)

lemma suggestTabGroups_error_iff:
  "isl (suggestTabGroups P b tabIds) \<longleftrightarrow>
     (\<not> isConfigured P \<or> List.map_filter (tabDetail P b) tabIds = [])"
  by (auto simp: suggestTabGroups_def Let_def)

text \<open>
  Claim C7 says that a failure of the completion service reaches the caller of every
  strategy as an error. The code catches it: \<^const>\<open>findSimilarTabs\<close> returns the empty
  array from its \<^verbatim>\<open>catch\<close> block, and \<^const>\<open>suggestTabGroups\<close> logs the failure of a batch
  and goes on, so that with a service that always fails both return an empty result, and
  \<^const>\<open>groupSimilarTabs\<close> returns no group and no error.
\<close>

theorem llm_failure_not_propagated:
  "findSimilarTabs_try (examplePlatform (Inl (Error ''HTTP 500'')))
     (exampleBrowser [exampleTab 1 ''https://a.org/'', exampleTab 2 ''https://b.org/'']) 1
     = Inl (Error ''HTTP 500'') \<and>
   findSimilarTabs (examplePlatform (Inl (Error ''HTTP 500'')))
     (exampleBrowser [exampleTab 1 ''https://a.org/'', exampleTab 2 ''https://b.org/'']) 1
     = Inr [] \<and>
   suggestTabGroups (examplePlatform (Inl (Error ''HTTP 500'')))
     (exampleBrowser [exampleTab 1 ''https://a.org/'', exampleTab 2 ''https://b.org/'']) [1, 2]
     = Inr [] \<and>
   groupSimilarTabs (examplePlatform (Inl (Error ''HTTP 500''))) 1
     (exampleBrowser [exampleTab 1 ''https://a.org/'', exampleTab 2 ''https://b.org/''])
     = (Inr None,
        exampleBrowser [exampleTab 1 ''https://a.org/'', exampleTab 2 ''https://b.org/''])"
  by code_simp

text \<open>
  Claim C7, as the code has it. \<^const>\<open>findSimilarTabs\<close> never returns an error.
  \<^const>\<open>suggestTabGroups\<close> returns an error exactly when the service is not configured or
  none of the tabs can be read; a batch whose call fails adds no group, and the batches
  after it are still analysed. When every call of the completion service fails,
  \<^const>\<open>findSimilarTabs\<close> returns the empty list, so that \<^const>\<open>groupSimilarTabs\<close> creates
  no group: it leaves the browser as it is and returns no group id (or the error of
  \<^verbatim>\<open>chrome.tabs.get\<close> when the reference tab does not exist); and \<^const>\<open>suggestTabGroups\<close>
  returns the empty list when it is configured and has a tab to analyse.
\<close>

theorem llm_failure_swallowed:
  "(\<exists>ids. findSimilarTabs P b tabId = Inr ids) \<and>
   (isl (suggestTabGroups P b tabIds) \<longleftrightarrow>
      (\<not> isConfigured P \<or> List.map_filter (tabDetail P b) tabIds = [])) \<and>
   (isl (p_callLLM P n (groupPrompt batch)) \<longrightarrow>
      analyzeBatches P n (batch # rest) results = analyzeBatches P (Suc n) rest results) \<and>
   ((\<forall>n prompt. isl (p_callLLM P n prompt)) \<longrightarrow>
      findSimilarTabs P b tabId = Inr [] \<and>
      groupSimilarTabs P tabId b =
        (case chrome_tabs_get b tabId of Inl e \<Rightarrow> (Inl e, b) | Inr tab \<Rightarrow> (Inr None, b)) \<and>
      (isConfigured P \<and> List.map_filter (tabDetail P b) tabIds \<noteq> [] \<longrightarrow>
         suggestTabGroups P b tabIds = Inr []))"
  using findSimilarTabs_total[of P b tabId] findSimilarTabs_llm_fails[of P b tabId]
    groupSimilarTabs_llm_fails[of P tabId b]
    suggestTabGroups_error_iff[of P b tabIds] analyzeBatches_all_fail[of P 0 _ "[]"]
  by (auto simp: suggestTabGroups_def Let_def isl_def)

theorem llm_failure_swallowed_witness:
  "findSimilarTabs (examplePlatform (Inl (Error ''timeout'')))
     (exampleBrowser [exampleTab 5 ''https://a.org/'', exampleTab 6 ''https://a.org/x'']) 5 = Inr [] \<and>
   suggestTabGroups (examplePlatform (Inl (Error ''timeout'')))
     (exampleBrowser [exampleTab 5 ''https://a.org/'', exampleTab 6 ''https://a.org/x'']) [5, 6] = Inr [] \<and>
   \<not> isl (suggestTabGroups (examplePlatform (Inl (Error ''timeout'')))
     (exampleBrowser [exampleTab 5 ''https://a.org/'', exampleTab 6 ''https://a.org/x'']) [5, 6]) \<and>
   groupSimilarTabs (examplePlatform (Inl (Error ''timeout''))) 5
     (exampleBrowser [exampleTab 5 ''https://a.org/'', exampleTab 6 ''https://a.org/x''])
     = (Inr None,
        exampleBrowser [exampleTab 5 ''https://a.org/'', exampleTab 6 ''https://a.org/x''])"
proof -
  let ?P = "examplePlatform (Inl (Error ''timeout''))"
  let ?b = "exampleBrowser [exampleTab 5 ''https://a.org/'', exampleTab 6 ''https://a.org/x'']"
  have fails: "\<forall>n prompt. isl (p_callLLM ?P n prompt)"
    by (simp add: examplePlatform_def)
  have conf: "isConfigured ?P"
    by (simp add: examplePlatform_def isConfigured_def)
  have tabs: "List.map_filter (tabDetail ?P ?b) [5, 6] \<noteq> []"
    by code_simp
  have ref: "chrome_tabs_get ?b 5 = Inr (exampleTab 5 ''https://a.org/'')"
    by code_simp
  show ?thesis
    using llm_failure_swallowed[of ?P ?b 5 "[5, 6]" 0 "[]" "[]" "[]"] fails conf tabs ref
    by (simp add: isl_def)
qed


subsection \<open>The browser's group operations\<close>

lemma fold_max_ge: "(a::int) \<le> fold max xs a"
  by (induction xs arbitrary: a) (auto intro: order_trans[OF max.cobounded2])

lemma fold_max_mem: "x \<in> set xs \<Longrightarrow> (x::int) \<le> fold max xs a"
proof (induction xs arbitrary: a)
  case Nil
  then show ?case by simp
next
  case (Cons y ys)
  then show ?case
    using fold_max_ge[of "max y a" ys] by auto
qed

lemma freshGroupId_tabs: "t \<in> set (b_tabs b) \<Longrightarrow> t_groupId t < freshGroupId b"
  using fold_max_mem[of "t_groupId t" "map g_id (b_groups b) @ map t_groupId (b_tabs b)" 0]
  by (simp add: freshGroupId_def)

lemma freshGroupId_groups: "g \<in> set (b_groups b) \<Longrightarrow> g_id g < freshGroupId b"
  using fold_max_mem[of "g_id g" "map g_id (b_groups b) @ map t_groupId (b_tabs b)" 0]
  by (simp add: freshGroupId_def)

lemma freshGroupId_pos: "0 < freshGroupId b"
  using fold_max_ge[of 0 "map g_id (b_groups b) @ map t_groupId (b_tabs b)"]
  by (simp add: freshGroupId_def)

lemma eligibleTabs_iff:
  "t \<in> set (eligibleTabs tabId ts) \<longleftrightarrow>
     t \<in> set ts \<and> t_id t \<noteq> Some tabId \<and> t_groupId t = TAB_GROUP_ID_NONE \<and> \<not> specialPage t"
  by (cases "t_url t") (auto simp: eligibleTabs_def specialPage_def truthyString_def)

lemma findSimilarTabs_eligible:
  assumes "findSimilarTabs P b tabId = Inr ids" "i \<in> set ids"
  shows "knownEligible b tabId i"
proof -
  from assms obtain ref where ref: "chrome_tabs_get b tabId = Inr ref"
    and i: "list_ex (\<lambda>tab. t_id tab = Some i)
         (eligibleTabs tabId (chrome_tabs_query_windowId b (t_windowId ref)))"
    by (auto simp: findSimilarTabs_def findSimilarTabs_try_def Let_def
        split: sum.splits if_splits)
  then obtain t where t: "t \<in> set (eligibleTabs tabId (chrome_tabs_query_windowId b (t_windowId ref)))"
    "t_id t = Some i" by (auto simp: list_ex_iff)
  then have "t \<in> set (b_tabs b)" "t_windowId ref = None \<or> t_windowId t = t_windowId ref"
    "t_groupId t = TAB_GROUP_ID_NONE" "\<not> specialPage t" "i \<noteq> tabId"
    by (auto simp: eligibleTabs_iff chrome_tabs_query_windowId_def split: option.splits)
  then show ?thesis
    using ref t(2) by (auto simp: knownEligible_def list_ex_iff)
qed

lemma chrome_tabs_group_new:
  "chrome_tabs_group tabIds None b = (Inr g, b1) \<Longrightarrow>
   g = freshGroupId b \<and> list_all (hasTab b) tabIds \<and>
   b_tabs b1 = moveTabs tabIds g (b_currentWindow b) (b_tabs b)"
  by (simp add: chrome_tabs_group_def pruneGroups_def Let_def split: if_splits) auto

lemma chrome_tabGroups_update_tabs:
  "chrome_tabGroups_update g props b = (r, b1) \<Longrightarrow> b_tabs b1 = b_tabs b"
  by (auto simp: chrome_tabGroups_update_def split: option.splits)

lemma createGroup_result:
  assumes "createGroup tabIds opts b = (Inr g, b')"
  shows "g = freshGroupId b \<and> list_all (hasTab b) tabIds \<and>
         b_tabs b' = moveTabs tabIds g (b_currentWindow b) (b_tabs b)"
proof -
  from assms have ne: "tabIds \<noteq> []" by (auto simp: createGroup_def)
  obtain r b1 where r: "chrome_tabs_group tabIds None b = (r, b1)"
    by (cases "chrome_tabs_group tabIds None b")
  with assms ne obtain g1 where g1: "r = Inr g1"
    by (cases r) (auto simp: createGroup_def)
  from assms ne r g1 have "g = g1 \<and> b_tabs b' = b_tabs b1"
    by (auto simp: createGroup_def split: if_splits prod.splits sum.splits
        dest: chrome_tabGroups_update_tabs)
  with chrome_tabs_group_new[OF r[unfolded g1]] show ?thesis by simp
qed

lemma getRandomColor_tabs: "getRandomColor P b = (c, b1) \<Longrightarrow> b_tabs b1 = b_tabs b \<and> 
    b_groups b1 = b_groups b \<and> b_currentWindow b1 = b_currentWindow b"
  by (auto simp: getRandomColor_def)

lemma freshGroupId_cong:
  "b_tabs b1 = b_tabs b \<Longrightarrow> b_groups b1 = b_groups b \<Longrightarrow> freshGroupId b1 = freshGroupId b"
  by (simp add: freshGroupId_def)

lemma groupMembers_moveTabs:
  assumes "\<forall>t\<in>set ts. t_groupId t \<noteq> g"
  shows "map t_id (filter (\<lambda>t. t_groupId t = g) (moveTabs ids g w ts)) =
     filter (\<lambda>oi. case oi of None \<Rightarrow> False | Some i \<Rightarrow> i \<in> set ids) (map t_id ts)"
  using assms by (induction ts) (auto simp: moveTabs_def inIds_def split: option.splits)

subsection \<open>Similarity clustering\<close>

lemma groupSimilarTabs_created:
  assumes a: "groupSimilarTabs P referenceTabId b = (Inr (Some groupId), b')"
  shows "\<exists>found color b1 domain.
     findSimilarTabs P b referenceTabId = Inr found \<and> getRandomColor P b = (color, b1) \<and>
     createGroup (if referenceTabId \<in> set found then found else referenceTabId # found)
               \<lparr>o_title = Some domain, o_color = Some color, o_collapsed = None\<rparr> b1
             = (Inr groupId, b')"
proof -
  obtain tab where tab: "chrome_tabs_get b referenceTabId = Inr tab"
    using a by (cases "chrome_tabs_get b referenceTabId") (auto simp: groupSimilarTabs_def)
  obtain found where f: "findSimilarTabs P b referenceTabId = Inr found"
    using findSimilarTabs_total by blast
  obtain color b1 where c: "getRandomColor P b = (color, b1)"
    by (cases "getRandomColor P b")
  from a tab have ns: "\<not> specialPage tab"
    by (auto simp: groupSimilarTabs_def)
  let ?ids = "if referenceTabId \<in> set found then found else referenceTabId # found"
  from a tab f ns have len: "length ?ids > 1"
    by (simp add: groupSimilarTabs_def Let_def split: if_splits)
  from a tab f ns len obtain domain where d: "domainOf P tab = Some domain"
    by (cases "domainOf P tab") (simp_all add: groupSimilarTabs_def Let_def)
  obtain r b2 where cg: "createGroup ?ids
          \<lparr>o_title = Some domain, o_color = Some color, o_collapsed = None\<rparr> b1 = (r, b2)"
    by (cases "createGroup ?ids
          \<lparr>o_title = Some domain, o_color = Some color, o_collapsed = None\<rparr> b1")
  from a tab f ns len d c cg have "r = Inr groupId \<and> b2 = b'"
    by (cases r) (simp_all add: groupSimilarTabs_def Let_def)
  with f c cg show ?thesis by blast
qed

lemma groupSimilarTabs_members:
  assumes a: "groupSimilarTabs P referenceTabId b = (Inr (Some groupId), b')"
  shows "\<exists>found. findSimilarTabs P b referenceTabId = Inr found \<and>
     hasTab b referenceTabId \<and>
     groupMembers b' groupId =
       filter (\<lambda>oi. case oi of None \<Rightarrow> False
                    | Some i \<Rightarrow> i = referenceTabId \<or> i \<in> set found)
         (map t_id (b_tabs b))"
proof -
  from groupSimilarTabs_created[OF a] obtain found color b1 domain where
    f: "findSimilarTabs P b referenceTabId = Inr found"
    and c: "getRandomColor P b = (color, b1)"
    and cg: "createGroup (if referenceTabId \<in> set found then found else referenceTabId # found)
               \<lparr>o_title = Some domain, o_color = Some color, o_collapsed = None\<rparr> b1
             = (Inr groupId, b')"
    by blast
  let ?ids = "if referenceTabId \<in> set found then found else referenceTabId # found"
  from getRandomColor_tabs[OF c] have bt: "b_tabs b1 = b_tabs b" "b_groups b1 = b_groups b"
    by simp_all
  have b1: "b_tabs b1 = b_tabs b" "freshGroupId b1 = freshGroupId b" "hasTab b1 = hasTab b"
    using bt by (simp_all add: freshGroupId_def hasTab_def fun_eq_iff)
  from createGroup_result[OF cg]
  have g: "groupId = freshGroupId b" and has: "list_all (hasTab b) ?ids"
    and tabs: "b_tabs b' = moveTabs ?ids groupId (b_currentWindow b1) (b_tabs b)"
    by (simp_all add: b1)
  have fresh: "\<forall>t\<in>set (b_tabs b). t_groupId t \<noteq> groupId"
  proof
    fix t assume "t \<in> set (b_tabs b)"
    from freshGroupId_tabs[OF this] show "t_groupId t \<noteq> groupId" by (simp add: g)
  qed
  have "groupMembers b' groupId =
     filter (\<lambda>oi. case oi of None \<Rightarrow> False | Some i \<Rightarrow> i \<in> set ?ids) (map t_id (b_tabs b))"
    unfolding groupMembers_def tabs by (rule groupMembers_moveTabs[OF fresh])
  also have "(\<lambda>oi. case oi of None \<Rightarrow> False | Some i \<Rightarrow> i \<in> set ?ids) =
     (\<lambda>oi. case oi of None \<Rightarrow> False | Some i \<Rightarrow> i = referenceTabId \<or> i \<in> set found)"
    by (rule ext) (auto split: option.splits)
  finally have m: "groupMembers b' groupId =
       filter (\<lambda>oi. case oi of None \<Rightarrow> False
                    | Some i \<Rightarrow> i = referenceTabId \<or> i \<in> set found)
         (map t_id (b_tabs b))" .
  have "referenceTabId \<in> set ?ids" by simp
  with has have "hasTab b referenceTabId" unfolding list_all_iff by blast
  with f m show ?thesis by blast
qed

text \<open>
  Claim C8. For every reference tab and every reply of the completion service,
  \<^const>\<open>findSimilarTabs\<close> returns only ids of the known-eligible set: ungrouped tabs of the
  reference tab's window that are no internal or blank pages, the reference tab excluded;
  an id of the reply that is not in the set is dropped. When \<^const>\<open>groupSimilarTabs\<close>
  creates a group, the reference tab is a member of it and every other member is
  known-eligible.
\<close>

theorem similarity_only_eligible:
  "(findSimilarTabs P b referenceTabId = Inr ids \<and> i \<in> set ids \<longrightarrow>
      knownEligible b referenceTabId i) \<and>
   (groupSimilarTabs P referenceTabId b = (Inr (Some groupId), b') \<longrightarrow>
      Some referenceTabId \<in> set (groupMembers b' groupId) \<and>
      (\<forall>j. Some j \<in> set (groupMembers b' groupId) \<longrightarrow>
           j = referenceTabId \<or> knownEligible b referenceTabId j) \<and>
      None \<notin> set (groupMembers b' groupId))"
proof (intro conjI impI)
  assume "findSimilarTabs P b referenceTabId = Inr ids \<and> i \<in> set ids"
  then show "knownEligible b referenceTabId i" using findSimilarTabs_eligible by blast
next
  assume a: "groupSimilarTabs P referenceTabId b = (Inr (Some groupId), b')"
  from groupSimilarTabs_members[OF a] obtain found where
    f: "findSimilarTabs P b referenceTabId = Inr found" and h: "hasTab b referenceTabId"
    and m: "groupMembers b' groupId =
       filter (\<lambda>oi. case oi of None \<Rightarrow> False
                    | Some i \<Rightarrow> i = referenceTabId \<or> i \<in> set found)
         (map t_id (b_tabs b))" by blast
  from h show "Some referenceTabId \<in> set (groupMembers b' groupId)"
    unfolding m by (force simp: hasTab_def list_ex_iff)
  show "\<forall>j. Some j \<in> set (groupMembers b' groupId) \<longrightarrow>
           j = referenceTabId \<or> knownEligible b referenceTabId j"
    unfolding m using findSimilarTabs_eligible[OF f] by auto
  show "None \<notin> set (groupMembers b' groupId)"
    unfolding m by auto
qed

theorem similarity_only_eligible_witness:
  "findSimilarTabs (examplePlatform (Inr ''I would group 2, 999 and 4 with it.''))
     (exampleBrowser [exampleTab 1 ''https://a.org/'', exampleTab 2 ''https://b.org/'',
        exampleTab 3 ''chrome://settings'', exampleTab 4 ''https://b.org/x'']) 1 = Inr [2, 4] \<and>
   knownEligible
     (exampleBrowser [exampleTab 1 ''https://a.org/'', exampleTab 2 ''https://b.org/'',
        exampleTab 3 ''chrome://settings'', exampleTab 4 ''https://b.org/x'']) 1 4 \<and>
   Some 1 \<in> set (groupMembers (snd (groupSimilarTabs
     (examplePlatform (Inr ''I would group 2, 999 and 4 with it.'')) 1
     (exampleBrowser [exampleTab 1 ''https://a.org/'', exampleTab 2 ''https://b.org/'',
        exampleTab 3 ''chrome://settings'', exampleTab 4 ''https://b.org/x'']))) 1)"
proof -
  let ?P = "examplePlatform (Inr ''I would group 2, 999 and 4 with it.'')"
  let ?b = "exampleBrowser [exampleTab 1 ''https://a.org/'', exampleTab 2 ''https://b.org/'',
        exampleTab 3 ''chrome://settings'', exampleTab 4 ''https://b.org/x'']"
  have f: "findSimilarTabs ?P ?b 1 = Inr [2, 4]" by code_simp
  have "fst (groupSimilarTabs ?P 1 ?b) = Inr (Some 1)" by code_simp
  then have g: "groupSimilarTabs ?P 1 ?b = (Inr (Some 1), snd (groupSimilarTabs ?P 1 ?b))"
    by (simp add: prod_eq_iff)
  show ?thesis
    using similarity_only_eligible
      [of ?P ?b 1 "[2, 4]" 4 1 "snd (groupSimilarTabs ?P 1 ?b)"] f g
    by simp
qed


subsection \<open>Grouping by domain\<close>

lemma pushTo_keys: "fst ` set (pushTo d i dg) = insert d (fst ` set dg)"
proof (induction dg)
  case Nil
  then show ?case by simp
next
  case (Cons e dg)
  obtain k ids where e: "e = (k, ids)" by (cases e)
  show ?case unfolding e using Cons by (cases "k = d") auto
qed

lemma pushTo_distinct: "distinct (map fst dg) \<Longrightarrow> distinct (map fst (pushTo d i dg))"
proof (induction dg)
  case Nil
  then show ?case by simp
next
  case (Cons e dg)
  obtain k ids where e: "e = (k, ids)" by (cases e)
  show ?case using Cons unfolding e
    by (auto simp: pushTo_keys)
qed

lemma pushTo_lookup:
  "lookupIds (pushTo d i dg) d' =
     (if d' = d then lookupIds dg d @ (case i of None \<Rightarrow> [] | Some j \<Rightarrow> [j]) else lookupIds dg d')"
  by (induction dg) (auto simp: lookupIds_def)

lemma collectDomains_step:
  "collectDomains P (t # ts) dg =
     collectDomains P ts (case contribution P t of None \<Rightarrow> dg | Some (d, i) \<Rightarrow> pushTo d i dg)"
  by (auto simp: contribution_def split: option.splits)

lemma collectDomains_distinct:
  "distinct (map fst dg) \<Longrightarrow> distinct (map fst (collectDomains P ts dg))"
proof (induction ts arbitrary: dg)
  case Nil
  then show ?case by simp
next
  case (Cons t ts)
  show ?case unfolding collectDomains_step
    by (rule Cons.IH) (auto split: option.splits intro: pushTo_distinct Cons.prems)
qed

lemma collectDomains_lookup:
  "lookupIds (collectDomains P ts dg) d = lookupIds dg d @ idsFor P d ts"
proof (induction ts arbitrary: dg)
  case Nil
  then show ?case by (simp add: idsFor_def)
next
  case (Cons t ts)
  show ?case unfolding collectDomains_step Cons.IH
    by (auto simp: idsFor_def pushTo_lookup split: option.splits)
qed

lemma entry_lookup:
  "distinct (map fst dg) \<Longrightarrow> (d, ids) \<in> set dg \<Longrightarrow> lookupIds dg d = ids"
  by (simp add: lookupIds_def)

lemma collectDomains_entry:
  assumes "(d, ids) \<in> set (collectDomains P ts [])"
  shows "ids = idsFor P d ts"
proof -
  have "distinct (map fst (collectDomains P ts []))"
    by (rule collectDomains_distinct) simp
  from entry_lookup[OF this assms] collectDomains_lookup[of P ts "[]" d]
  show ?thesis by (simp add: lookupIds_def)
qed

lemma collectDomains_keys:
  "fst ` set (collectDomains P ts dg) =
     fst ` set dg \<union> {d. \<exists>t\<in>set ts. \<exists>i. contribution P t = Some (d, i)}"
proof (induction ts arbitrary: dg)
  case Nil
  then show ?case by simp
next
  case (Cons t ts)
  show ?case unfolding collectDomains_step Cons.IH
    by (cases "contribution P t") (force simp: pushTo_keys)+
qed

lemma regrouped_id: "regrouped M t t' \<Longrightarrow> t_id t' = t_id t"
  by (auto simp: regrouped_def split: if_splits)

lemma regrouped_trans:
  "regrouped M1 t t1 \<Longrightarrow> regrouped M2 t1 t2 \<Longrightarrow> regrouped (M1 @ M2) t t2"
  by (auto simp: regrouped_def inIds_def split: if_splits option.splits)

lemma regrouped_refl: "regrouped [] t t"
  by (simp add: regrouped_def inIds_def split: option.splits)

lemma createGroup_regrouped:
  assumes "createGroup tabIds opts b = (Inr g, b')"
  shows "list_all2 (regrouped tabIds) (b_tabs b) (b_tabs b')"
proof -
  from createGroup_result[OF assms]
  have g: "g = freshGroupId b" and t: "b_tabs b' = moveTabs tabIds g (b_currentWindow b) (b_tabs b)"
    by simp_all
  have "g \<noteq> TAB_GROUP_ID_NONE" using freshGroupId_pos[of b] g by (simp add: TAB_GROUP_ID_NONE_def)
  then show ?thesis unfolding t moveTabs_def
    by (simp add: list_all2_map2 list_all2_same regrouped_def)
qed

lemma createDomainGroups_regrouped:
  "createDomainGroups P dg cr b = (Inr cr', b') \<Longrightarrow>
   list_all2 (regrouped (multiIds dg)) (b_tabs b) (b_tabs b')"
proof (induction dg arbitrary: cr b)
  case Nil
  then show ?case by (simp add: multiIds_def list_all2_same regrouped_refl)
next
  case (Cons e dg)
  obtain d ids where e: "e = (d, ids)" by (cases e)
  show ?case
  proof (cases "length ids > 1")
    case False
    with Cons.prems have "createDomainGroups P dg cr b = (Inr cr', b')" by (simp add: e)
    from Cons.IH[OF this] False show ?thesis by (simp add: multiIds_def e)
  next
    case True
    obtain color b1 where c: "getRandomColor P b = (color, b1)" by (cases "getRandomColor P b")
    obtain r b2 where cg: "createGroup ids
        \<lparr>o_title = Some d, o_color = Some color, o_collapsed = None\<rparr> b1 = (r, b2)"
      by (cases "createGroup ids \<lparr>o_title = Some d, o_color = Some color, o_collapsed = None\<rparr> b1")
    from Cons.prems True c cg obtain g where r: "r = Inr g"
      by (cases r) (simp_all add: e)
    from Cons.prems True c cg r
    have rest: "createDomainGroups P dg
        (cr @ [\<lparr>c_domain = d, c_count = length ids, c_groupId = g\<rparr>]) b2 = (Inr cr', b')"
      by (simp add: e)
    have "list_all2 (regrouped ids) (b_tabs b) (b_tabs b2)"
      using createGroup_regrouped[OF cg[unfolded r]] getRandomColor_tabs[OF c] by simp
    from list_all2_trans[of "regrouped ids" "regrouped (multiIds dg)" "regrouped (ids @ multiIds dg)",
        OF regrouped_trans this Cons.IH[OF rest]]
    show ?thesis using True by (simp add: multiIds_def e)
  qed
qed

lemma createDomainGroups_nothing:
  "\<forall>e\<in>set dg. length (snd e) \<le> 1 \<Longrightarrow> createDomainGroups P dg cr b = (Inr cr, b)"
proof (induction dg)
  case Nil
  then show ?case by simp
next
  case (Cons e dg)
  obtain d ids where e: "e = (d, ids)" by (cases e)
  from Cons show ?case by (simp add: e)
qed

lemma find_regrouped:
  "list_all2 (regrouped M) xs ys \<Longrightarrow> find (\<lambda>t. t_id t = Some i) xs = Some x \<Longrightarrow>
   \<exists>y. find (\<lambda>t. t_id t = Some i) ys = Some y \<and> regrouped M x y"
proof (induction rule: list_all2_induct)
  case Nil
  then show ?case by simp
next
  case (Cons a xs b ys)
  then show ?case using regrouped_id[of M a b] by (auto split: if_splits)
qed

lemma getTabs_regrouped:
  "list_all2 (regrouped M) (b_tabs b) (b_tabs b') \<Longrightarrow> getTabs b ids = Inr ts \<Longrightarrow>
   \<exists>ts'. getTabs b' ids = Inr ts' \<and> list_all2 (regrouped M) ts ts'"
proof (induction ids arbitrary: ts)
  case Nil
  then show ?case by simp
next
  case (Cons i ids)
  from Cons.prems(2) obtain t rest where t: "chrome_tabs_get b i = Inr t"
    and rest: "getTabs b ids = Inr rest" and ts: "ts = t # rest"
    by (auto split: sum.splits)
  from t have "find (\<lambda>t. t_id t = Some i) (b_tabs b) = Some t"
    by (auto simp: chrome_tabs_get_def split: option.splits)
  from find_regrouped[OF Cons.prems(1) this] obtain t' where
    t': "chrome_tabs_get b' i = Inr t'" "regrouped M t t'"
    by (auto simp: chrome_tabs_get_def)
  from Cons.IH[OF Cons.prems(1) rest] obtain rest' where
    "getTabs b' ids = Inr rest'" "list_all2 (regrouped M) rest rest'" by blast
  with t' ts show ?case by simp
qed

lemma contribution_regrouped:
  "regrouped M t t' \<Longrightarrow> contribution P t' = (if inIds M t then None else contribution P t)"
  by (auto simp: regrouped_def contribution_def)

lemma contribution_id: "contribution P t = Some (d, oi) \<Longrightarrow> oi = t_id t"
  by (auto simp: contribution_def split: if_splits option.splits)

lemma idsFor_regrouped:
  "list_all2 (regrouped M) ts ts' \<Longrightarrow>
   idsFor P d ts' = filter (\<lambda>i. i \<notin> set M) (idsFor P d ts)"
proof (induction rule: list_all2_induct)
  case Nil
  then show ?case by (simp add: idsFor_def)
next
  case (Cons t ts t' ts')
  have "(case contribution P t' of Some (d', Some i) \<Rightarrow> if d' = d then [i] else [] | _ \<Rightarrow> [])
      = filter (\<lambda>i. i \<notin> set M)
          (case contribution P t of Some (d', Some i) \<Rightarrow> if d' = d then [i] else [] | _ \<Rightarrow> [])"
  proof (cases "contribution P t")
    case None
    with Cons(1) show ?thesis by (simp add: contribution_regrouped)
  next
    case (Some c)
    obtain d' oi where c: "c = (d', oi)" by (cases c)
    from contribution_id[OF Some[unfolded c]] have "oi = t_id t" .
    with Some c Cons(1) show ?thesis
      by (cases "t_id t") (auto simp: contribution_regrouped inIds_def)
  qed
  with Cons show ?case by (simp add: idsFor_def)
qed

lemma idsFor_key:
  "idsFor P d ts \<noteq> [] \<Longrightarrow> \<exists>t\<in>set ts. \<exists>i. contribution P t = Some (d, i)"
proof (induction ts)
  case Nil
  then show ?case by (simp add: idsFor_def)
next
  case (Cons t ts)
  show ?case
  proof (cases "idsFor P d ts = []")
    case False
    with Cons.IH show ?thesis by auto
  next
    case True
    with Cons.prems
    have "(case contribution P t of Some (d', Some i) \<Rightarrow> if d' = d then [i] else [] | _ \<Rightarrow> []) \<noteq> []"
      by (simp add: idsFor_def)
    then have "\<exists>i. contribution P t = Some (d, i)"
      by (auto split: option.splits if_splits)
    then show ?thesis by auto
  qed
qed

lemma second_collect_small:
  assumes r: "list_all2 (regrouped (multiIds (collectDomains P ts []))) ts ts'"
    and e: "e \<in> set (collectDomains P ts' [])"
  shows "length (snd e) \<le> 1"
proof -
  obtain d ids' where e': "e = (d, ids')" by (cases e)
  let ?M = "multiIds (collectDomains P ts [])"
  from collectDomains_entry[of d ids' P ts'] e e'
  have "ids' = idsFor P d ts'" by simp
  also have "\<dots> = filter (\<lambda>i. i \<notin> set ?M) (idsFor P d ts)"
    by (rule idsFor_regrouped[OF r])
  finally have ids': "ids' = filter (\<lambda>i. i \<notin> set ?M) (idsFor P d ts)" .
  show ?thesis
  proof (cases "length (idsFor P d ts) > 1")
    case False
    have "length ids' \<le> length (idsFor P d ts)" unfolding ids' by (rule length_filter_le)
    with False show ?thesis by (simp add: e')
  next
    case True
    then have "idsFor P d ts \<noteq> []" by auto
    from idsFor_key[OF this] have "d \<in> fst ` set (collectDomains P ts [])"
      by (auto simp: collectDomains_keys)
    then obtain ids where m: "(d, ids) \<in> set (collectDomains P ts [])" by auto
    from collectDomains_entry[OF m] have "ids = idsFor P d ts" .
    with m True have "set (idsFor P d ts) \<subseteq> set ?M"
      by (force simp: multiIds_def)
    then have "ids' = []" unfolding ids' by (auto simp: filter_empty_conv)
    then show ?thesis by (simp add: e')
  qed
qed

lemma groupTabsByDomain_twice:
  assumes "groupTabsByDomain P tabIds b = (Inr message, b1)"
  shows "groupTabsByDomain P tabIds b1 =
           (Inr ''No groups were created. There were no domains with multiple tabs.'', b1)"
proof -
  from assms obtain ts where ts: "getTabs b tabIds = Inr ts"
    by (cases "getTabs b tabIds") (auto simp: groupTabsByDomain_def)
  obtain r b' where cd: "createDomainGroups P (collectDomains P ts []) [] b = (r, b')"
    by (cases "createDomainGroups P (collectDomains P ts []) [] b")
  from assms ts cd obtain created where r: "r = Inr created" and b': "b' = b1"
    by (cases r) (auto simp: groupTabsByDomain_def split: if_splits)
  from createDomainGroups_regrouped[OF cd[unfolded r b']]
  have rel: "list_all2 (regrouped (multiIds (collectDomains P ts []))) (b_tabs b) (b_tabs b1)" .
  from getTabs_regrouped[OF rel ts] obtain ts' where
    ts': "getTabs b1 tabIds = Inr ts'"
    and rel': "list_all2 (regrouped (multiIds (collectDomains P ts []))) ts ts'" by blast
  have "\<forall>e\<in>set (collectDomains P ts' []). length (snd e) \<le> 1"
    using second_collect_small[OF rel'] by blast
  from createDomainGroups_nothing[OF this]
  have "createDomainGroups P (collectDomains P ts' []) [] b1 = (Inr [], b1)" .
  with ts' show ?thesis by (simp add: groupTabsByDomain_def)
qed

lemma find_Some_mem: "find Q xs = Some x \<Longrightarrow> x \<in> set xs \<and> Q x"
  by (induction xs) (auto split: if_splits)

lemma find_map_same_id:
  "(\<And>x. t_id (f x) = t_id x) \<Longrightarrow>
   find (\<lambda>t. t_id t = Some i) (map f xs) = map_option f (find (\<lambda>t. t_id t = Some i) xs)"
  by (induction xs) auto

lemma chrome_tabs_get_moved:
  assumes "chrome_tabs_get b i = Inr t" "i \<in> set ids"
    "b_tabs b' = moveTabs ids g w (b_tabs b)"
  shows "chrome_tabs_get b' i = Inr (t\<lparr>t_groupId := g, t_windowId := Some w\<rparr>)"
proof -
  from assms(1) have f: "find (\<lambda>t. t_id t = Some i) (b_tabs b) = Some t"
    by (auto simp: chrome_tabs_get_def split: option.splits)
  then have "t_id t = Some i" by (auto simp: find_Some_iff)
  with assms(2) have "inIds ids t" by (simp add: inIds_def)
  with f show ?thesis
    unfolding chrome_tabs_get_def assms(3) moveTabs_def
    by (subst find_map_same_id) auto
qed

lemma addTabsToGroup_result:
  assumes "addTabsToGroup g [i] b = (Inr u, b1)"
  shows "\<exists>gr. find (\<lambda>gr. g_id gr = g) (b_groups b) = Some gr \<and> hasTab b i \<and>
     b_tabs b1 = moveTabs [i] g (g_windowId gr) (b_tabs b) \<and>
     set (b_groups b1) \<subseteq> set (b_groups b)"
  using assms
  by (simp add: addTabsToGroup_def chrome_tabs_group_def pruneGroups_def
      split: if_splits option.splits) auto

lemma addTabsToGroup_tabs:
  assumes "addTabsToGroup g [i] b = (Inr u, b1)"
  shows "\<exists>w. b_tabs b1 = moveTabs [i] g w (b_tabs b)"
  using addTabsToGroup_result[OF assms] by blast

lemma createGroup_groups_tabs:
  "createGroup ids opts b = (Inr g, b1) \<Longrightarrow> g \<noteq> TAB_GROUP_ID_NONE"
  using createGroup_result[of ids opts b g b1] freshGroupId_pos[of b]
  by (simp add: TAB_GROUP_ID_NONE_def)

lemma groupTabByDomain_grouped:
  assumes "chrome_tabs_get b tabId = Inr tab" "t_groupId tab \<noteq> TAB_GROUP_ID_NONE"
  shows "groupTabByDomain P tabId b = (Inr None, b)"
  using assms by (simp add: groupTabByDomain_def)

lemma groupTabByDomain_twice:
  assumes wf: "list_all (\<lambda>g. g_id g \<noteq> TAB_GROUP_ID_NONE) (b_groups b)"
    and run: "groupTabByDomain P tabId b = (Inr r, b1)"
  shows "groupTabByDomain P tabId b1 = (Inr None, b1)"
proof -
  from run obtain tab where tab: "chrome_tabs_get b tabId = Inr tab"
    by (cases "chrome_tabs_get b tabId") (auto simp: groupTabByDomain_def)
  show ?thesis
  proof (cases "t_groupId tab \<noteq> TAB_GROUP_ID_NONE \<or> specialPage tab")
    case True
    with run tab have "r = None" "b1 = b" by (auto simp: groupTabByDomain_def)
    with run show ?thesis by simp
  next
    case False
    with run tab obtain domain where d: "domainOf P tab = Some domain"
      by (cases "domainOf P tab") (auto simp: groupTabByDomain_def)
    show ?thesis
    proof (cases "find (\<lambda>g. g_title g = Some domain) (chrome_tabGroups_query b (t_windowId tab))")
      case (Some found)
      then have "found \<in> set (b_groups b)"
        by (auto simp: find_Some_iff chrome_tabGroups_query_def split: option.splits
            dest: nth_mem)
      with wf have ne: "g_id found \<noteq> TAB_GROUP_ID_NONE" by (auto simp: list_all_iff)
      obtain res b2 where a: "addTabsToGroup (g_id found) [tabId] b = (res, b2)"
        by (cases "addTabsToGroup (g_id found) [tabId] b")
      from run tab False d Some a obtain u where res: "res = Inr u" and b2: "b2 = b1"
        by (cases res) (auto simp: groupTabByDomain_def)
      from addTabsToGroup_tabs[OF a[unfolded res b2]] obtain w where
        "b_tabs b1 = moveTabs [tabId] (g_id found) w (b_tabs b)" ..
      from chrome_tabs_get_moved[OF tab _ this]
      have "chrome_tabs_get b1 tabId =
          Inr (tab\<lparr>t_groupId := g_id found, t_windowId := Some w\<rparr>)" by simp
      from groupTabByDomain_grouped[OF this] ne show ?thesis by simp
    next
      case None
      let ?same = "sameDomainTabs P tabId domain (chrome_tabs_query_windowId b (t_windowId tab))"
      show ?thesis
      proof (cases "length ?same > 0")
        case F: False
        with run tab False d None have "r = None" "b1 = b"
          by (auto simp: groupTabByDomain_def Let_def)
        with run show ?thesis by simp
      next
        case True
        obtain color b0 where c: "getRandomColor P b = (color, b0)"
          by (cases "getRandomColor P b")
        obtain res b2 where cg: "createGroup (tabId # definedIds ?same)
            \<lparr>o_title = Some domain, o_color = Some color, o_collapsed = None\<rparr> b0 = (res, b2)"
          by (cases "createGroup (tabId # definedIds ?same)
            \<lparr>o_title = Some domain, o_color = Some color, o_collapsed = None\<rparr> b0")
        from run tab False d None True c cg obtain g where res: "res = Inr g" and b2: "b2 = b1"
          by (cases res) (auto simp: groupTabByDomain_def Let_def)
        from createGroup_result[OF cg[unfolded res b2]] getRandomColor_tabs[OF c]
        have t: "b_tabs b1 = moveTabs (tabId # definedIds ?same) g (b_currentWindow b) (b_tabs b)"
          by simp
        from chrome_tabs_get_moved[OF tab _ t]
        have "chrome_tabs_get b1 tabId =
          Inr (tab\<lparr>t_groupId := g, t_windowId := Some (b_currentWindow b)\<rparr>)" by simp
        from groupTabByDomain_grouped[OF this] createGroup_groups_tabs[OF cg[unfolded res b2]]
        show ?thesis by simp
      qed
    qed
  qed
qed

lemma groupTabByDomain_reuses:
  assumes tab: "chrome_tabs_get b tabId = Inr tab"
    and el: "t_groupId tab = TAB_GROUP_ID_NONE" "\<not> specialPage tab"
    and d: "domainOf P tab = Some domain"
    and f: "find (\<lambda>g. g_title g = Some domain) (chrome_tabGroups_query b (t_windowId tab))
              = Some found"
  shows "fst (groupTabByDomain P tabId b) = Inr (Some (g_id found)) \<and>
         set (b_groups (snd (groupTabByDomain P tabId b))) \<subseteq> set (b_groups b) \<and>
         Some tabId \<in> set (groupMembers (snd (groupTabByDomain P tabId b)) (g_id found))"
proof -
  from f have mem: "found \<in> set (b_groups b)"
    by (auto simp: find_Some_iff chrome_tabGroups_query_def split: option.splits dest: nth_mem)
  then obtain gr where gr: "find (\<lambda>gr. g_id gr = g_id found) (b_groups b) = Some gr"
    by (cases "find (\<lambda>gr. g_id gr = g_id found) (b_groups b)") (auto simp: find_None_iff)
  from tab have has: "hasTab b tabId"
    by (auto simp: chrome_tabs_get_def hasTab_def list_ex_iff find_Some_iff
        split: option.splits dest: nth_mem)
  let ?b1 = "pruneGroups (b\<lparr>b_tabs := moveTabs [tabId] (g_id found) (g_windowId gr) (b_tabs b)\<rparr>)"
  have a: "addTabsToGroup (g_id found) [tabId] b = (Inr (), ?b1)"
    using gr has by (simp add: addTabsToGroup_def chrome_tabs_group_def)
  have run: "groupTabByDomain P tabId b = (Inr (Some (g_id found)), ?b1)"
    using tab el d f a by (simp add: groupTabByDomain_def)
  have t1: "b_tabs ?b1 = moveTabs [tabId] (g_id found) (g_windowId gr) (b_tabs b)"
    by (simp add: pruneGroups_def)
  from chrome_tabs_get_moved[OF tab _ t1]
  have "chrome_tabs_get ?b1 tabId =
      Inr (tab\<lparr>t_groupId := g_id found, t_windowId := Some (g_windowId gr)\<rparr>)" by simp
  then have "find (\<lambda>t. t_id t = Some tabId) (b_tabs ?b1) =
      Some (tab\<lparr>t_groupId := g_id found, t_windowId := Some (g_windowId gr)\<rparr>)"
    by (auto simp: chrome_tabs_get_def split: option.splits)
  from find_Some_mem[OF this]
  have "\<exists>t\<in>set (b_tabs ?b1). t_id t = Some tabId \<and> t_groupId t = g_id found"
    by (intro bexI[of _ "tab\<lparr>t_groupId := g_id found, t_windowId := Some (g_windowId gr)\<rparr>"]) simp_all
  then have "Some tabId \<in> set (groupMembers ?b1 (g_id found))"
    by (force simp: groupMembers_def)
  moreover have "set (b_groups ?b1) \<subseteq> set (b_groups b)" by (auto simp: pruneGroups_def)
  ultimately show ?thesis using run by simp
qed

text \<open>
  Claim C5 gives as the reason of the idempotence that the reconciler looks for a group of
  the window whose title is the cluster's name before it creates one, and creates a group
  only when there is none. That is not what keeps a second run from creating a group: on a
  browser with a group titled \<^verbatim>\<open>a.org\<close> in the window and two ungrouped tabs of \<^verbatim>\<open>a.org\<close>,
  \<^const>\<open>groupTabsByDomain\<close> creates a second group with this title, where
  \<^const>\<open>groupTabByDomain\<close> on the same browser adds the tab to the group that exists.
\<close>

theorem groupTabsByDomain_ignores_titles:
  "fst (groupTabsByDomain (examplePlatform (Inr []))  [1, 2]
     \<lparr>b_tabs = [(exampleTab 9 ''https://a.org/'')\<lparr>t_groupId := 5\<rparr>,
                exampleTab 1 ''https://www.a.org/x'', exampleTab 2 ''https://a.org/y''],
      b_groups = [\<lparr>g_id = 5, g_windowId = 1, g_title = Some ''a.org'', g_color = blue,
                   g_collapsed = False\<rparr>],
      b_currentWindow = 1, b_draws = 0\<rparr>) = Inr ''Created 1 groups based on domain.'' \<and>
   map (\<lambda>g. (g_id g, g_title g)) (b_groups (snd (groupTabsByDomain (examplePlatform (Inr [])) [1, 2]
     \<lparr>b_tabs = [(exampleTab 9 ''https://a.org/'')\<lparr>t_groupId := 5\<rparr>,
                exampleTab 1 ''https://www.a.org/x'', exampleTab 2 ''https://a.org/y''],
      b_groups = [\<lparr>g_id = 5, g_windowId = 1, g_title = Some ''a.org'', g_color = blue,
                   g_collapsed = False\<rparr>],
      b_currentWindow = 1, b_draws = 0\<rparr>))) = [(5, Some ''a.org''), (6, Some ''a.org'')] \<and>
   map (\<lambda>g. (g_id g, g_title g)) (b_groups (snd (groupTabByDomain (examplePlatform (Inr [])) 1
     \<lparr>b_tabs = [(exampleTab 9 ''https://a.org/'')\<lparr>t_groupId := 5\<rparr>,
                exampleTab 1 ''https://www.a.org/x'', exampleTab 2 ''https://a.org/y''],
      b_groups = [\<lparr>g_id = 5, g_windowId = 1, g_title = Some ''a.org'', g_color = blue,
                   g_collapsed = False\<rparr>],
      b_currentWindow = 1, b_draws = 0\<rparr>))) = [(5, Some ''a.org'')]"
  by code_simp

text \<open>
  Claim C5, as the code has it. Grouping by domain is idempotent: a second run of
  \<^const>\<open>groupTabsByDomain\<close> on the ids of a run that succeeded creates no group and leaves
  the browser as it is, and so does a second run of \<^const>\<open>groupTabByDomain\<close> on the same
  tab, because the tabs the first run has grouped are skipped as already grouped.
  \<^const>\<open>groupTabByDomain\<close> looks for a group by its title first: when a group of the tab's
  window has the tab's domain as its title, the tab joins the first such group and no
  group is created.
\<close>

theorem domain_grouping_idempotent:
  "(groupTabsByDomain P tabIds b = (Inr message, b1) \<longrightarrow>
      groupTabsByDomain P tabIds b1 =
        (Inr ''No groups were created. There were no domains with multiple tabs.'', b1)) \<and>
   (list_all (\<lambda>g. g_id g \<noteq> TAB_GROUP_ID_NONE) (b_groups b) \<and>
    groupTabByDomain P tabId b = (Inr r, b2) \<longrightarrow>
      groupTabByDomain P tabId b2 = (Inr None, b2)) \<and>
   (chrome_tabs_get b tabId = Inr tab \<and> t_groupId tab = TAB_GROUP_ID_NONE \<and>
    \<not> specialPage tab \<and> domainOf P tab = Some domain \<and>
    find (\<lambda>g. g_title g = Some domain) (chrome_tabGroups_query b (t_windowId tab)) = Some found
    \<longrightarrow>
      fst (groupTabByDomain P tabId b) = Inr (Some (g_id found)) \<and>
      set (b_groups (snd (groupTabByDomain P tabId b))) \<subseteq> set (b_groups b) \<and>
      Some tabId \<in> set (groupMembers (snd (groupTabByDomain P tabId b)) (g_id found)))"
  using groupTabsByDomain_twice[of P tabIds b message b1]
    groupTabByDomain_twice[of b P tabId r b2]
    groupTabByDomain_reuses[of b tabId tab P domain found]
  by blast

theorem domain_grouping_idempotent_witness:
  "groupTabsByDomain (examplePlatform (Inr [])) [1, 2, 3]
     (snd (groupTabsByDomain (examplePlatform (Inr [])) [1, 2, 3]
        (exampleBrowser [exampleTab 1 ''https://www.a.org/x'', exampleTab 2 ''https://a.org/y'',
           exampleTab 3 ''https://b.org/''])))
   = (Inr ''No groups were created. There were no domains with multiple tabs.'',
      snd (groupTabsByDomain (examplePlatform (Inr [])) [1, 2, 3]
        (exampleBrowser [exampleTab 1 ''https://www.a.org/x'', exampleTab 2 ''https://a.org/y'',
           exampleTab 3 ''https://b.org/'']))) \<and>
   groupTabByDomain (examplePlatform (Inr [])) 1
     (snd (groupTabByDomain (examplePlatform (Inr [])) 1
        (exampleBrowser [exampleTab 1 ''https://www.a.org/x'', exampleTab 2 ''https://a.org/y'',
           exampleTab 3 ''https://b.org/''])))
   = (Inr None,
      snd (groupTabByDomain (examplePlatform (Inr [])) 1
        (exampleBrowser [exampleTab 1 ''https://www.a.org/x'', exampleTab 2 ''https://a.org/y'',
           exampleTab 3 ''https://b.org/'']))) \<and>
   fst (groupTabByDomain (examplePlatform (Inr [])) 1
     \<lparr>b_tabs = [(exampleTab 9 ''https://a.org/'')\<lparr>t_groupId := 5\<rparr>,
                exampleTab 1 ''https://www.a.org/x'', exampleTab 2 ''https://a.org/y''],
      b_groups = [\<lparr>g_id = 5, g_windowId = 1, g_title = Some ''a.org'', g_color = blue,
                   g_collapsed = False\<rparr>],
      b_currentWindow = 1, b_draws = 0\<rparr>) = Inr (Some 5)"
proof -
  let ?P = "examplePlatform (Inr [])"
  let ?b = "exampleBrowser [exampleTab 1 ''https://www.a.org/x'', exampleTab 2 ''https://a.org/y'',
           exampleTab 3 ''https://b.org/'']"
  let ?g = "\<lparr>g_id = 5, g_windowId = 1, g_title = Some ''a.org'', g_color = blue,
                   g_collapsed = False\<rparr>"
  let ?c = "\<lparr>b_tabs = [(exampleTab 9 ''https://a.org/'')\<lparr>t_groupId := 5\<rparr>,
                exampleTab 1 ''https://www.a.org/x'', exampleTab 2 ''https://a.org/y''],
      b_groups = [?g], b_currentWindow = 1, b_draws = 0\<rparr>"
  have "fst (groupTabsByDomain ?P [1, 2, 3] ?b) = Inr ''Created 1 groups based on domain.''"
    by code_simp
  then have batch: "groupTabsByDomain ?P [1, 2, 3] ?b =
      (Inr ''Created 1 groups based on domain.'', snd (groupTabsByDomain ?P [1, 2, 3] ?b))"
    by (simp add: prod_eq_iff)
  have wf: "list_all (\<lambda>g. g_id g \<noteq> TAB_GROUP_ID_NONE) (b_groups ?b)"
    by (simp add: exampleBrowser_def)
  have "fst (groupTabByDomain ?P 1 ?b) = Inr (Some 1)"
    by code_simp
  then have single: "groupTabByDomain ?P 1 ?b = (Inr (Some 1), snd (groupTabByDomain ?P 1 ?b))"
    by (simp add: prod_eq_iff)
  have tab: "chrome_tabs_get ?c 1 = Inr (exampleTab 1 ''https://www.a.org/x'')"
    by code_simp
  have el: "t_groupId (exampleTab 1 ''https://www.a.org/x'') = TAB_GROUP_ID_NONE"
    "\<not> specialPage (exampleTab 1 ''https://www.a.org/x'')"
    by code_simp+
  have dom: "domainOf ?P (exampleTab 1 ''https://www.a.org/x'') = Some ''a.org''"
    by code_simp
  have found: "find (\<lambda>g. g_title g = Some ''a.org'')
      (chrome_tabGroups_query ?c (t_windowId (exampleTab 1 ''https://www.a.org/x''))) = Some ?g"
    by code_simp
  from domain_grouping_idempotent
    [of ?P "[1, 2, 3]" ?b "''Created 1 groups based on domain.''"
        "snd (groupTabsByDomain ?P [1, 2, 3] ?b)" 1 "Some 1" "snd (groupTabByDomain ?P 1 ?b)"]
    batch wf single
  have first: "groupTabsByDomain ?P [1, 2, 3] (snd (groupTabsByDomain ?P [1, 2, 3] ?b)) =
      (Inr ''No groups were created. There were no domains with multiple tabs.'',
       snd (groupTabsByDomain ?P [1, 2, 3] ?b))"
    and second: "groupTabByDomain ?P 1 (snd (groupTabByDomain ?P 1 ?b)) =
      (Inr None, snd (groupTabByDomain ?P 1 ?b))"
    by blast+
  from domain_grouping_idempotent
    [of ?P "[]" ?c "[]" ?c 1 None ?c "exampleTab 1 ''https://www.a.org/x''" "''a.org''" ?g]
    tab el dom found
  have third: "fst (groupTabByDomain ?P 1 ?c) = Inr (Some 5)"
    by simp
  from first second third show ?thesis by blast
qed


subsection \<open>The parser of group suggestions\<close>

lemma digit_char: "k < 10 \<Longrightarrow> isDigit (char_of (48 + k :: nat)) \<and> of_char (char_of (48 + k)) = (48 + k :: nat)"
  by (simp add: isDigit_def less_eq_char_def)

lemma showNat_digits: "\<forall>c\<in>set (showNat n). isDigit c"
proof (induction n rule: showNat.induct)
  case (1 n)
  show ?case
  proof (cases "n < 10")
    case True
    then show ?thesis by (subst showNat.simps) (simp add: digit_char)
  next
    case False
    with 1 show ?thesis by (subst showNat.simps) (simp add: digit_char)
  qed
qed

lemma showNat_nonempty: "showNat n \<noteq> []"
  by (subst showNat.simps) simp

lemma parseNat_snoc: "parseNat (ds @ [c]) = 10 * parseNat ds + (of_char c - 48)"
  by (simp add: parseNat_def)

lemma parseNat_showNat: "parseNat (showNat n) = n"
proof (induction n rule: showNat.induct)
  case (1 n)
  show ?case
  proof (cases "n < 10")
    case True
    then show ?thesis by (subst showNat.simps) (simp add: parseNat_def digit_char)
  next
    case False
    with 1 show ?thesis by (subst showNat.simps) (simp add: parseNat_snoc digit_char)
  qed
qed

lemma isDigit_not_space: "isDigit c \<Longrightarrow> \<not> isSpace c"
  by (auto simp: isDigit_def isSpace_def less_eq_char_def)

lemma isDigit_chars: "isDigit c \<Longrightarrow> c \<noteq> CHR '','' \<and> c \<noteq> CHR ''-'' \<and> c \<noteq> CHR ''+'' \<and> c \<noteq> CHR ''T'' 
    \<and> c \<noteq> CHR ''G'' \<and> c \<noteq> newline \<and> c \<noteq> CHR '' ''"
  by (auto simp: isDigit_def less_eq_char_def newline_def)

lemma takeWhile_all: "\<forall>x\<in>set xs. Q x \<Longrightarrow> takeWhile Q xs = xs"
  by (induction xs) auto

lemma parseInt_showInt: "parseInt (showInt i) = Some i"
proof -
  obtain c cs where s: "showNat (nat \<bar>i\<bar>) = c # cs" using showNat_nonempty by (cases "showNat (nat \<bar>i\<bar>)") auto
  have d: "\<forall>x\<in>set (c # cs). isDigit x" using showNat_digits[of "nat \<bar>i\<bar>"] s by simp
  then have c: "isDigit c" by simp
  have tw: "takeWhile isDigit (c # cs) = c # cs" by (rule takeWhile_all[OF d])
  have pn: "parseNat (c # cs) = nat \<bar>i\<bar>" using parseNat_showNat[of "nat \<bar>i\<bar>"] s by simp
  show ?thesis
  proof (cases "i < 0")
    case True
    then have "showInt i = CHR ''-'' # c # cs" using s by (simp add: showInt_def abs_if)
    then show ?thesis using True
      by (simp add: parseInt_def startsWith_def isSpace_def less_eq_char_def Let_def tw pn
          del: takeWhile.simps)
  next
    case False
    then have "showInt i = c # cs" using s by (simp add: showInt_def abs_if)
    then show ?thesis using False isDigit_not_space[OF c] isDigit_chars[OF c]
      by (auto simp add: parseInt_def startsWith_def Let_def tw pn simp del: takeWhile.simps)
  qed
qed

lemma showInt_chars: "showInt i \<noteq> [] \<and> (\<forall>c\<in>set (showInt i). idChar c)"
  using showNat_digits showNat_nonempty by (auto simp: showInt_def idChar_def)

lemma idChar_facts: "idChar c \<Longrightarrow> \<not> isSpace c \<and> c \<noteq> CHR '','' \<and> c \<noteq> CHR ''T'' \<and> c \<noteq> CHR ''G'' \<and> c \<noteq> newline"
  using isDigit_not_space[of c] isDigit_chars[of c]
  by (auto simp: idChar_def isSpace_def less_eq_char_def newline_def)

lemma splitSeparators_word:
  "w \<noteq> [] \<Longrightarrow> \<forall>c\<in>set w. idChar c \<Longrightarrow>
   splitSeparators f piece (w @ rest) = splitSeparators False (piece @ w) rest"
proof (induction w arbitrary: f piece)
  case Nil
  then show ?case by simp
next
  case (Cons c w)
  from Cons.prems have c: "\<not> isSpace c" "c \<noteq> CHR '',''" using idChar_facts[of c] by auto
  show ?case
  proof (cases "w = []")
    case True
    with c show ?thesis by simp
  next
    case False
    with Cons c show ?thesis by simp
  qed
qed

lemma splitSeparators_join:
  "\<forall>w\<in>set (w0 # ws). w \<noteq> [] \<and> (\<forall>c\<in>set w. idChar c) \<Longrightarrow>
   splitSeparators f [] (joinWith '', '' (w0 # ws)) = w0 # ws"
proof (induction ws arbitrary: w0 f)
  case Nil
  then show ?case using splitSeparators_word[of w0 f "[]" "[]"] by simp
next
  case (Cons w1 ws)
  have "splitSeparators f [] (joinWith '', '' (w0 # w1 # ws))
      = splitSeparators False w0 ('', '' @ joinWith '', '' (w1 # ws))"
    using splitSeparators_word[of w0 f "[]" "'', '' @ joinWith '', '' (w1 # ws)"] Cons.prems
    by simp
  also have "\<dots> = w0 # splitSeparators True [] (joinWith '', '' (w1 # ws))"
    by (simp add: isSpace_def)
  also have "\<dots> = w0 # w1 # ws" using Cons.IH[of w1 True] Cons.prems by simp
  finally show ?case .
qed

lemma concat_map_if: "concat (map (\<lambda>i. if Q i then [i] else []) xs) = filter Q xs"
  by (induction xs) auto

lemma literalIds_idsLine: "literalIds (idsLine ids) tabBatch = validIds tabBatch ids"
proof (cases ids)
  case Nil
  then show ?thesis by (simp add: literalIds_def idsLine_def validIds_def parseInt_def)
next
  case (Cons i rest)
  have "splitSeparators False [] (idsLine ids) = map showInt ids"
    unfolding idsLine_def Cons list.map
    by (rule splitSeparators_join) (use showInt_chars in auto)
  then show ?thesis
    by (simp add: literalIds_def validIds_def parseInt_showInt o_def concat_map_if)
qed

lemma joinWith_chars:
  "\<forall>w\<in>set ws. \<forall>c\<in>set w. Q c \<Longrightarrow> \<forall>c\<in>set sep. Q c \<Longrightarrow> \<forall>c\<in>set (joinWith sep ws). Q c"
  by (induction sep ws rule: joinWith.induct) auto

lemma idsLine_chars: "\<forall>c\<in>set (idsLine ids). idChar c \<or> c = CHR '','' \<or> c = CHR '' ''"
  unfolding idsLine_def
  by (rule joinWith_chars) (use showInt_chars in auto)

lemma idsLine_no: "CHR ''T'' \<notin> set (idsLine ids)" "newline \<notin> set (idsLine ids)"
  "CHR ''G'' \<notin> set (idsLine ids)"
  using idsLine_chars[of ids] idChar_facts by (auto simp: newline_def)

lemma joinWith_hd_last:
  "ws \<noteq> [] \<Longrightarrow> \<forall>w\<in>set ws. w \<noteq> [] \<Longrightarrow>
   joinWith sep ws \<noteq> [] \<and> hd (joinWith sep ws) = hd (hd ws) \<and>
   last (joinWith sep ws) = last (last ws)"
proof (induction sep ws rule: joinWith.induct)
  case (1 sep)
  then show ?case by simp
next
  case (2 sep x)
  then show ?case by simp
next
  case (3 sep x y ys)
  then show ?case by auto
qed

lemma idsLine_ends:
  "ids \<noteq> [] \<Longrightarrow> idsLine ids \<noteq> [] \<and> \<not> isSpace (hd (idsLine ids)) \<and> \<not> isSpace (last (idsLine ids))"
proof -
  assume ne: "ids \<noteq> []"
  have w: "\<forall>w\<in>set (map showInt ids). w \<noteq> []" using showInt_chars by auto
  from joinWith_hd_last[of "map showInt ids" "'', ''"] ne w
  have j: "idsLine ids \<noteq> []" "hd (idsLine ids) = hd (showInt (hd ids))"
    "last (idsLine ids) = last (showInt (last ids))"
    by (simp_all add: idsLine_def hd_map last_map)
  have "\<And>i. idChar (hd (showInt i)) \<and> idChar (last (showInt i))"
    using showInt_chars by (metis hd_in_set last_in_set)
  with j idChar_facts show ?thesis by metis
qed

lemma testTabN_no_T: "CHR ''T'' \<notin> set s \<Longrightarrow> \<not> testTabN s"
  by (induction s) (auto simp: startsWith_def)

lemma trim_core:
  assumes "a \<noteq> []" "\<not> isSpace (hd a)" "\<not> isSpace (last a)" "\<forall>c\<in>set ws. isSpace c"
  shows "trim (ws @ a @ y) = a @ rev (dropWhile isSpace (rev y))"
proof -
  obtain h t where a: "a = h # t" using assms(1) by (cases a) auto
  have 1: "dropWhile isSpace (ws @ a @ y) = a @ y"
    using assms(2,4) a by (simp add: dropWhile_append)
  have ra: "dropWhile isSpace (rev a) = rev a"
    using assms(1,3) by (cases "rev a") (auto simp: last_rev[symmetric] hd_rev)
  have "dropWhile isSpace (rev y @ rev a) = dropWhile isSpace (rev y) @ rev a"
    using ra by (auto simp: dropWhile_append dropWhile_eq_Nil_conv)
  then show ?thesis unfolding trim_def 1 by simp
qed

lemma trim_name: "wellFormedName name \<Longrightarrow> trim name = name"
  using trim_core[of name "[]" "[]"] by (simp add: wellFormedName_def)

lemma trim_idsLine: "trim ('' '' @ idsLine ids) = idsLine ids"
proof (cases "ids = []")
  case True
  then show ?thesis by (simp add: idsLine_def trim_def isSpace_def)
next
  case False
  from idsLine_ends[OF this] trim_core[of "idsLine ids" "'' ''" "[]"]
  show ?thesis by (simp add: isSpace_def)
qed

lemma restOfLine_line: "newline \<notin> set l \<Longrightarrow> restOfLine (l @ newline # rest) = l"
proof -
  assume "newline \<notin> set l"
  then have "\<forall>x\<in>set l. x \<noteq> newline" by auto
  then show ?thesis by (simp add: restOfLine_def takeWhile_tail)
qed

lemma includesStr_prefix: "prefix lit s \<Longrightarrow> includesStr s lit"
  by (cases s) auto

lemma prefix_before_char:
  assumes "c \<notin> set lit" "prefix lit (xs @ c # rest)"
  shows "prefix lit xs"
proof -
  from assms(2) consider "prefix lit xs" | us where "lit = xs @ us" "prefix us (c # rest)"
    by (auto simp: prefix_append)
  then show ?thesis
  proof cases
    case 1
    then show ?thesis .
  next
    case 2
    show ?thesis
    proof (cases us)
      case Nil
      with 2 show ?thesis by simp
    next
      case (Cons u us')
      with 2 have "u = c" by simp
      with 2 Cons assms(1) show ?thesis by simp
    qed
  qed
qed

lemma matchTabIDs_skip:
  "\<not> includesStr l ''Tab IDs:'' \<Longrightarrow> matchTabIDs (l @ newline # rest) = matchTabIDs (newline # rest)"
proof (induction l)
  case Nil
  then show ?case by simp
next
  case (Cons c l)
  from Cons.prems have np: "\<not> prefix ''Tab IDs:'' (c # l)" and ni: "\<not> includesStr l ''Tab IDs:''"
    by auto
  have "\<not> startsWith ((c # l) @ newline # rest) ''Tab IDs:''"
    unfolding startsWith_def using prefix_before_char[of newline "''Tab IDs:''" "c # l" rest] np
    by (auto simp: newline_def)
  then show ?case using Cons.IH[OF ni] by simp
qed

lemma matchTabIDs_line:
  "newline \<notin> set l \<Longrightarrow>
   matchTabIDs (newline # ''- Tab IDs:'' @ CHR '' '' # l @ newline # rest) = Some (CHR '' '' # l)"
  using restOfLine_line[of "CHR '' '' # l" rest]
  by (simp add: startsWith_def newline_def)

lemma groupTabIds_idsLine: "groupTabIds (idsLine ids) tabBatch = validIds tabBatch ids"
  by (simp add: groupTabIds_def testTabN_no_T idsLine_no literalIds_idsLine)

lemma matchAllTabN_skip: "matchAllTabN (length xs) (xs @ rest) = matchAllTabN 0 rest"
  by (induction xs) auto

lemma takeWhile_showNat:
  "rest = [] \<or> \<not> isDigit (hd rest) \<Longrightarrow> takeWhile isDigit (showNat n @ rest) = showNat n"
  using showNat_digits[of n] by (cases rest) (auto simp: takeWhile_tail)

lemma matchAllTabN_ref:
  assumes "rest = [] \<or> \<not> isDigit (hd rest)"
  shows "matchAllTabN 0 (tabRef n @ rest) = showNat n # matchAllTabN 0 rest"
proof -
  have tw: "takeWhile isDigit (showNat n @ rest) = showNat n"
    by (rule takeWhile_showNat[OF assms])
  have "matchAllTabN 0 (tabRef n @ rest) =
      showNat n # matchAllTabN (length (''ab '' @ showNat n)) ((''ab '' @ showNat n) @ rest)"
    using showNat_nonempty[of n] by (simp add: tabRef_def startsWith_def tw)
  then show ?thesis unfolding matchAllTabN_skip .
qed

lemma matchAllTabN_join: "matchAllTabN 0 (joinWith '', '' (map tabRef ns)) = map showNat ns"
proof (induction ns rule: induct_list012)
  case 1
  then show ?case by simp
next
  case (2 n)
  then show ?case using matchAllTabN_ref[of "[]" n] by simp
next
  case (3 n m ms)
  have "matchAllTabN 0 (joinWith '', '' (map tabRef (n # m # ms))) =
      matchAllTabN 0 (tabRef n @ ('', '' @ joinWith '', '' (map tabRef (m # ms))))"
    by simp
  also have "\<dots> = showNat n # matchAllTabN 0 ('', '' @ joinWith '', '' (map tabRef (m # ms)))"
    by (rule matchAllTabN_ref) (simp add: isDigit_def less_eq_char_def)
  also have "matchAllTabN 0 ('', '' @ joinWith '', '' (map tabRef (m # ms))) =
      matchAllTabN 0 (joinWith '', '' (map tabRef (m # ms)))"
    by (simp add: startsWith_def)
  finally show ?case using 3 by simp
qed

lemma ordinalIds_ordinalLine: "ordinalIds (ordinalLine ns) tabBatch = validOrdinals tabBatch ns"
proof -
  have "\<And>n. (let index = int (parseNat (showNat n)) - 1
             in if index \<ge> 0 \<and> index < int (length tabBatch)
                then [d_id (tabBatch ! nat index)] else []) =
        (if 1 \<le> n \<and> n \<le> length tabBatch then [d_id (tabBatch ! (n - 1))] else [])"
    by (auto simp: parseNat_showNat Let_def nat_diff_distrib)
  then show ?thesis
    by (simp add: ordinalIds_def ordinalLine_def validOrdinals_def matchAllTabN_join o_def)
qed

lemma testTabN_ordinalLine: "ns \<noteq> [] \<Longrightarrow> testTabN (ordinalLine ns)"
proof -
  assume "ns \<noteq> []"
  then obtain n ms where ns: "ns = n # ms" by (cases ns) auto
  obtain r where l: "ordinalLine ns = tabRef n @ r"
    unfolding ns ordinalLine_def by (cases ms) auto
  obtain d ds where d: "showNat n = d # ds" using showNat_nonempty by (cases "showNat n") auto
  then have "isDigit d" using showNat_digits[of n] by simp
  then show ?thesis unfolding l by (simp add: tabRef_def startsWith_def d)
qed

lemma groupTabIds_ordinalLine: "groupTabIds (ordinalLine ns) tabBatch = validOrdinals tabBatch ns"
proof (cases "ns = []")
  case True
  then show ?thesis
    by (simp add: groupTabIds_def ordinalLine_def validOrdinals_def literalIds_def parseInt_def)
next
  case False
  then show ?thesis
    by (simp add: groupTabIds_def testTabN_ordinalLine ordinalIds_ordinalLine)
qed

lemma tabRef_chars: "tabRef n \<noteq> [] \<and> hd (tabRef n) = CHR ''T'' \<and> isDigit (last (tabRef n)) \<and>
    (\<forall>c\<in>set (tabRef n). isDigit c \<or> c \<in> set ''Tab '')"
  using showNat_digits[of n] showNat_nonempty[of n] by (auto simp: tabRef_def)

lemma ordinalLine_chars: "\<forall>c\<in>set (ordinalLine ns). isDigit c \<or> c \<in> set ''Tab ,''"
  unfolding ordinalLine_def
  by (rule joinWith_chars) (use tabRef_chars in auto)

lemma ordinalLine_no: "newline \<notin> set (ordinalLine ns)" "CHR ''G'' \<notin> set (ordinalLine ns)"
  using ordinalLine_chars[of ns] isDigit_chars by (auto simp: newline_def)

lemma trim_ordinalLine: "trim (CHR '' '' # ordinalLine ns) = ordinalLine ns"
proof (cases "ns = []")
  case True
  then show ?thesis by (simp add: ordinalLine_def trim_def isSpace_def)
next
  case False
  have w: "\<forall>w\<in>set (map tabRef ns). w \<noteq> []" using tabRef_chars by auto
  from joinWith_hd_last[of "map tabRef ns" "'', ''"] False w
  have j: "ordinalLine ns \<noteq> []" "hd (ordinalLine ns) = CHR ''T''"
    "isDigit (last (ordinalLine ns))"
    using tabRef_chars by (simp_all add: ordinalLine_def hd_map last_map)
  then have "\<not> isSpace (hd (ordinalLine ns))" "\<not> isSpace (last (ordinalLine ns))"
    using isDigit_not_space by (simp_all add: isSpace_def less_eq_char_def)
  with j(1) trim_core[of "ordinalLine ns" "'' ''" "[]"]
  show ?thesis by (simp add: isSpace_def)
qed

lemma refsLine_no: "newline \<notin> set (refsLine r)" "CHR ''G'' \<notin> set (refsLine r)"
  by (cases r; simp add: idsLine_no ordinalLine_no)+

lemma trim_refsLine: "trim (CHR '' '' # refsLine r) = refsLine r"
  using trim_idsLine trim_ordinalLine by (cases r) simp_all

lemma groupTabIds_refsLine: "groupTabIds (refsLine r) tabBatch = validRefs tabBatch r"
  by (cases r) (simp_all add: groupTabIds_idsLine groupTabIds_ordinalLine)

lemma parseGroupText_body:
  assumes wf: "wellFormedName name" and nl: "newline \<notin> set line"
    and tr: "trim (CHR '' '' # line) = line"
  shows "parseGroupText (bodyText name line reason) tabBatch =
     (if length (groupTabIds line tabBatch) \<ge> 2
      then [\<lparr>s_name = name, s_tabIds = groupTabIds line tabBatch, s_color = None\<rparr>] else [])"
proof -
  let ?a = "name @ newline # ''- Tab IDs:'' @ CHR '' '' # line @ newline # ''- Reason:''"
  let ?y = "'' '' @ reason @ [newline, newline]"
  let ?y' = "rev (dropWhile isSpace (rev ?y))"
  from wf have n: "name \<noteq> []" "\<not> isSpace (hd name)" "newline \<notin> set name"
    "\<not> includesStr name ''Tab IDs:''"
    by (simp_all add: wellFormedName_def)
  have body: "bodyText name line reason = '' '' @ ?a @ ?y"
    by (simp add: bodyText_def)
  have "trim ('' '' @ ?a @ ?y) = ?a @ ?y'"
    by (rule trim_core) (use n in \<open>auto simp: isSpace_def less_eq_char_def\<close>)
  then have gt: "trim (bodyText name line reason) =
      name @ newline # (''- Tab IDs:'' @ CHR '' '' # line @ newline # (''- Reason:'' @ ?y'))"
    unfolding body by simp
  have ne: "trim (bodyText name line reason) \<noteq> []" unfolding gt using n by simp
  have rl: "restOfLine (trim (bodyText name line reason)) = name"
    unfolding gt by (rule restOfLine_line[OF n(3)])
  have "matchTabIDs (trim (bodyText name line reason)) =
      matchTabIDs (newline # ''- Tab IDs:'' @ CHR '' '' # line @ newline # (''- Reason:'' @ ?y'))"
    unfolding gt by (rule matchTabIDs_skip[OF n(4)])
  also have "\<dots> = Some (CHR '' '' # line)"
    by (rule matchTabIDs_line) (rule nl)
  finally have m: "matchTabIDs (trim (bodyText name line reason)) = Some (CHR '' '' # line)" .
  show ?thesis
    unfolding parseGroupText_def Let_def
    using ne n(1) by (simp add: rl m tr trim_name[OF wf])
qed

lemma includesStr_sublist: "includesStr s lit \<longleftrightarrow> sublist lit s"
  by (induction s) (auto simp: sublist_Cons_right)

lemma takeWhile_digits: "takeWhile isDigit (showNat n @ CHR '' '' # rest) = showNat n"
  using showNat_digits[of n] by (simp add: takeWhile_tail isDigit_def less_eq_char_def)

lemma dropWhile_digits: "dropWhile isDigit (showNat n @ CHR '' '' # rest) = CHR '' '' # rest"
  using showNat_digits[of n] by (simp add: dropWhile_append3 isDigit_def less_eq_char_def)

lemma matchGroupNName_heading:
  "matchGroupNName (headingText n @ rest) = Some (length (headingText n))"
  using showNat_nonempty[of n]
  by (simp add: matchGroupNName_def headingText_def startsWith_def Let_def
      takeWhile_digits dropWhile_digits)

lemma splitHeadings_skip:
  "splitHeadings (length xs) prev piece (xs @ rest) =
     splitHeadings 0 (if xs = [] then prev else Some (last xs)) piece rest"
  by (induction xs arbitrary: prev) auto

lemma splitHeadings_heading:
  "splitHeadings 0 prev piece (headingText n @ rest) =
     piece # splitHeadings 0 (Some (CHR '':'')) [] rest"
proof -
  obtain c cs where h: "headingText n = c # cs" by (cases "headingText n") (auto simp: headingText_def)
  have m: "matchHeading prev (c # cs @ rest) = Some (Suc (length cs))"
    using matchGroupNName_heading[of n rest] h by (simp add: matchHeading_def)
  have cs: "cs \<noteq> []" "last cs = CHR '':''" using h by (auto simp: headingText_def)
  have "splitHeadings 0 prev piece (headingText n @ rest)
      = piece # splitHeadings (length cs) (Some c) [] (cs @ rest)"
    unfolding h using m by simp
  also have "\<dots> = piece # splitHeadings 0 (Some (CHR '':'')) [] rest"
    unfolding splitHeadings_skip using cs by simp
  finally show ?thesis .
qed

lemma headingOrEnd_G: "headingOrEnd t \<Longrightarrow> t \<noteq> [] \<Longrightarrow> \<exists>d r. t = ''Group '' @ d # r \<and> isDigit d"
proof -
  assume "headingOrEnd t" "t \<noteq> []"
  then obtain n rest where t: "t = headingText n @ rest" by (auto simp: headingOrEnd_def)
  obtain d ds where d: "showNat n = d # ds" using showNat_nonempty by (cases "showNat n") auto
  then have "isDigit d" using showNat_digits[of n] by simp
  with t d show ?thesis by (auto simp: headingText_def)
qed

lemma no_GroupN:
  assumes "\<not> includesStr v ''Group''" "v \<noteq> []" "headingOrEnd t"
  shows "matchGroupNName (v @ t) = None"
proof -
  have "\<not> prefix ''Group '' (v @ t)"
  proof
    assume "prefix ''Group '' (v @ t)"
    then have "prefix ''Group '' v \<or> (\<exists>us. ''Group '' = v @ us \<and> prefix us t)"
      by (simp add: prefix_append)
    then show False
    proof (elim disjE exE conjE)
      assume "prefix ''Group '' v"
      then have "prefix ''Group'' v" by (auto simp: prefix_def)
      with assms(1) show False using includesStr_prefix by blast
    next
      fix us assume 2: "''Group '' = v @ us" "prefix us t"
      show False
      proof (cases "us = []")
        case True
        with 2 have "prefix ''Group'' v" by (auto simp: prefix_def)
        with assms(1) show False using includesStr_prefix by blast
      next
        case False
        with 2 have "t \<noteq> []" by auto
        from headingOrEnd_G[OF assms(3) this] obtain d r where t: "t = ''Group '' @ d # r" by blast
        from t 2(2) False have "hd us = CHR ''G''" by (cases us) auto
        moreover from 2(1) assms(2) False have "hd us \<in> set ''roup ''"
          by (cases us) (auto simp: Cons_eq_append_conv)
        ultimately show False by simp
      qed
    qed
  qed
  then show ?thesis by (simp add: matchGroupNName_def startsWith_def)
qed

lemma alpha_Group: "isAlpha (CHR ''G'')" "isAlpha (CHR ''r'')" "isAlpha (CHR ''o'')"
  "isAlpha (CHR ''u'')" "isAlpha (CHR ''p'')" "\<not> isAlpha (CHR '' '')"
  by (simp_all add: isAlpha_def less_eq_char_def)

lemma WordGroup_splits:
  "'' Group:'' = w @ us \<Longrightarrow> w \<noteq> [] \<Longrightarrow> us \<noteq> [] \<Longrightarrow>
   us \<in> {''Group:'', ''roup:'', ''oup:'', ''up:'', ''p:'', '':''}"
  by (simp add: Cons_eq_append_conv) (elim disjE exE conjE; simp add: Cons_eq_append_conv)+

lemma WordGroup_no_prefix:
  "us \<in> {''Group:'', ''roup:'', ''oup:'', ''up:'', ''p:'', '':''} \<Longrightarrow>
   \<not> prefix us (''Group '' @ dg # r)"
  by auto

lemma sublist_Group_inside: "sublist ''Group'' ([CHR '' ''] @ ''Group'' @ z)"
  by (rule sublist_appendI)

lemma no_WordGroup:
  assumes ni: "\<not> includesStr v ''Group''" and ne: "v \<noteq> []" and t: "headingOrEnd t"
  shows "matchWordGroup prev (v @ t) = None"
proof -
  have "\<not> prefix '' Group:'' (dropWhile isAlpha (v @ t))"
  proof (cases "\<forall>x\<in>set v. isAlpha x")
    case allAlpha: True
    then have d: "dropWhile isAlpha (v @ t) = dropWhile isAlpha t" by (simp add: dropWhile_append)
    show ?thesis
    proof (cases "t = []")
      case True
      from allAlpha have e: "dropWhile isAlpha v = []" by simp
      show ?thesis unfolding True append_Nil2 e by simp
    next
      case False
      from headingOrEnd_G[OF t this] obtain dg r where t': "t = ''Group '' @ dg # r" "isDigit dg"
        by blast
      then have "dg \<noteq> CHR ''G''" using isDigit_chars by blast
      moreover have "dropWhile isAlpha t = CHR '' '' # dg # r"
        unfolding t'(1) by (simp add: alpha_Group)
      ultimately show ?thesis unfolding d by simp
    qed
  next
    case False
    let ?w = "dropWhile isAlpha v"
    from False have d: "dropWhile isAlpha (v @ t) = ?w @ t" and w: "?w \<noteq> []"
      by (auto simp: dropWhile_append)
    have nw: "\<not> sublist ''Group'' ?w"
    proof
      assume "sublist ''Group'' ?w"
      then have "sublist ''Group'' v"
        using sublist_dropWhile[of isAlpha v] by (rule sublist_order.order.trans)
      then show False using ni by (simp add: includesStr_sublist)
    qed
    show ?thesis
    proof
      assume "prefix '' Group:'' (dropWhile isAlpha (v @ t))"
      then have "prefix '' Group:'' ?w \<or> (\<exists>us. '' Group:'' = ?w @ us \<and> prefix us t)"
        unfolding d by (simp add: prefix_append)
      then show False
      proof (elim disjE exE conjE)
        assume "prefix '' Group:'' ?w"
        then obtain z where "?w = [CHR '' ''] @ ''Group'' @ (CHR '':'' # z)"
          by (auto simp: prefix_def)
        then have "sublist ''Group'' ?w" using sublist_Group_inside[of "CHR '':'' # z"] by simp
        with nw show False ..
      next
        fix us assume 2: "'' Group:'' = ?w @ us" "prefix us t"
        show False
        proof (cases "us = []")
          case True
          with 2 have "?w = [CHR '' ''] @ ''Group'' @ [CHR '':'']" by simp
          then have "sublist ''Group'' ?w" using sublist_Group_inside[of "[CHR '':'']"] by simp
          with nw show False ..
        next
          case False
          with 2 have "t \<noteq> []" by auto
          from headingOrEnd_G[OF t this] obtain dg r where t': "t = ''Group '' @ dg # r" by blast
          from WordGroup_splits[OF 2(1) w False] WordGroup_no_prefix 2(2)
          show False unfolding t' by blast
        qed
      qed
    qed
  qed
  then show ?thesis by (simp add: matchWordGroup_def startsWith_def)
qed

lemma no_heading:
  "\<not> includesStr v ''Group'' \<Longrightarrow> v \<noteq> [] \<Longrightarrow> headingOrEnd t \<Longrightarrow> matchHeading prev (v @ t) = None"
  by (simp add: matchHeading_def no_GroupN no_WordGroup)

lemma splitHeadings_plain:
  "\<not> includesStr x ''Group'' \<Longrightarrow> headingOrEnd t \<Longrightarrow>
   splitHeadings 0 prev piece (x @ t) =
     splitHeadings 0 (if x = [] then prev else Some (last x)) (piece @ x) t"
proof (induction x arbitrary: prev piece)
  case Nil
  then show ?case by simp
next
  case (Cons c x)
  from Cons.prems(1) have nx: "\<not> includesStr x ''Group''" by simp
  from no_heading[OF Cons.prems(1) _ Cons.prems(2)]
  have "matchHeading prev (c # x @ t) = None" by simp
  then show ?case using Cons.IH[OF nx Cons.prems(2)] by simp
qed

lemma sublist_split_char:
  assumes "c \<notin> set lit" "lit \<noteq> []"
  shows "sublist lit (xs @ c # ys) \<longleftrightarrow> sublist lit xs \<or> sublist lit ys"
proof
  assume "sublist lit (xs @ c # ys)"
  then consider "sublist lit xs" | "sublist lit (c # ys)"
    | xs1 xs2 where "lit = xs1 @ xs2" "suffix xs1 xs" "prefix xs2 (c # ys)"
    unfolding sublist_append by blast
  then show "sublist lit xs \<or> sublist lit ys"
  proof cases
    case 1
    then show ?thesis ..
  next
    case 2
    then have "prefix lit (c # ys) \<or> sublist lit ys" by (simp add: sublist_Cons_right)
    moreover have "\<not> prefix lit (c # ys)" using assms by (cases lit) auto
    ultimately show ?thesis by blast
  next
    case 3
    show ?thesis
    proof (cases xs2)
      case Nil
      with 3 have "suffix lit xs" by simp
      then show ?thesis by blast
    next
      case (Cons x xs2')
      with 3(3) have "x = c" by simp
      with 3(1) Cons assms(1) show ?thesis by simp
    qed
  qed
next
  assume "sublist lit xs \<or> sublist lit ys"
  then show "sublist lit (xs @ c # ys)"
    by (auto simp: sublist_append sublist_Cons_right)
qed

lemma sublist_needs_char: "c \<in> set lit \<Longrightarrow> c \<notin> set s \<Longrightarrow> \<not> sublist lit s"
  using set_mono_sublist by fastforce

lemma bodyText_no_Group:
  assumes "\<not> includesStr name ''Group''" "\<not> includesStr reason ''Group''"
    and "CHR ''G'' \<notin> set line"
  shows "\<not> includesStr (bodyText name line reason) ''Group''"
proof -
  let ?G = "''Group''"
  have nl: "newline \<notin> set ?G" "CHR '' '' \<notin> set ?G" "?G \<noteq> []" by (simp_all add: newline_def)
  have n: "\<not> sublist ?G name" and r: "\<not> sublist ?G reason"
    using assms by (simp_all add: includesStr_sublist)
  have i: "\<not> sublist ?G line"
    by (rule sublist_needs_char[of "CHR ''G''"]) (simp_all add: assms(3))
  have r1: "\<not> sublist ?G (reason @ newline # [newline])"
    using r by (simp add: sublist_split_char[OF nl(1,3)] sublist_Cons_right)
  have r2: "\<not> sublist ?G (''- Reason:'' @ CHR '' '' # reason @ newline # [newline])"
    using r1 by (simp add: sublist_split_char[OF nl(2,3)] sublist_Cons_right)
  have r3: "\<not> sublist ?G (line @ newline # ''- Reason:'' @ CHR '' '' # reason @ newline # [newline])"
    using r2 i by (simp add: sublist_split_char[OF nl(1,3)])
  have r4: "\<not> sublist ?G (''- Tab IDs:'' @ CHR '' '' # line @ newline # ''- Reason:'' @
      CHR '' '' # reason @ newline # [newline])"
    using r3 by (simp add: sublist_split_char[OF nl(2,3)] sublist_Cons_right)
  have r5: "\<not> sublist ?G (name @ newline # ''- Tab IDs:'' @ CHR '' '' # line @ newline #
      ''- Reason:'' @ CHR '' '' # reason @ newline # [newline])"
    using r4 n by (simp add: sublist_split_char[OF nl(1,3)])
  have "\<not> sublist ?G ([] @ CHR '' '' # name @ newline # ''- Tab IDs:'' @ CHR '' '' # line @
      newline # ''- Reason:'' @ CHR '' '' # reason @ newline # [newline])"
    using r5 unfolding sublist_split_char[OF nl(2,3)] by simp
  then show ?thesis by (simp add: includesStr_sublist bodyText_def)
qed

lemma headingOrEnd_sections: "headingOrEnd (concat (map sectionText secs))"
  by (cases secs) (auto simp: headingOrEnd_def sectionText_def)

lemma splitHeadings_sections:
  "\<not> includesStr x ''Group'' \<Longrightarrow> list_all wellFormedSection secs \<Longrightarrow>
   splitHeadings 0 prev piece (x @ concat (map sectionText secs)) =
     (piece @ x) #
     map (\<lambda>sec. bodyText (sec_name sec) (refsLine (sec_refs sec)) (sec_reason sec)) secs"
proof (induction secs arbitrary: x prev piece)
  case Nil
  from splitHeadings_plain[OF Nil(1), of "[]" prev piece] show ?case
    by (simp add: headingOrEnd_def)
next
  case (Cons sec secs)
  let ?body = "bodyText (sec_name sec) (refsLine (sec_refs sec)) (sec_reason sec)"
  let ?rest = "concat (map sectionText secs)"
  from Cons.prems(2) have wf: "wellFormedSection sec" "list_all wellFormedSection secs" by simp_all
  then have nb: "\<not> includesStr ?body ''Group''"
    by (intro bodyText_no_Group) (simp_all add: wellFormedSection_def wellFormedName_def refsLine_no)
  have "splitHeadings 0 prev piece (x @ concat (map sectionText (sec # secs)))
      = splitHeadings 0 (if x = [] then prev else Some (last x)) (piece @ x)
          (concat (map sectionText (sec # secs)))"
    by (rule splitHeadings_plain[OF Cons.prems(1) headingOrEnd_sections])
  also have "\<dots> = (piece @ x) # splitHeadings 0 (Some (CHR '':'')) [] (?body @ ?rest)"
    by (simp add: sectionText_def splitHeadings_heading)
  also have "splitHeadings 0 (Some (CHR '':'')) [] (?body @ ?rest) =
      ([] @ ?body) # map (\<lambda>sec. bodyText (sec_name sec) (refsLine (sec_refs sec)) (sec_reason sec)) secs"
    by (rule Cons.IH[OF nb wf(2)])
  finally show ?case by simp
qed

text \<open>
  What the parser makes of a completion of well-formed sections: in the order of the
  sections, one group for every section that lists at least two entries that are tabs of the
  batch, with the section's name and these entries; the entries that are no tabs of the batch
  are dropped before the entries are counted. An entry that is repeated is counted again.
\<close>

lemma parseGroupAnalysis_sections:
  assumes "\<not> includesStr intro ''Group''" "list_all wellFormedSection secs"
  shows "parseGroupAnalysis (completionText intro secs) tabBatch =
           concat (map (\<lambda>sec.
             if 2 \<le> length (validRefs tabBatch (sec_refs sec))
             then [\<lparr>s_name = sec_name sec, s_tabIds = validRefs tabBatch (sec_refs sec),
                    s_color = None\<rparr>]
             else []) secs)"
proof -
  have "\<And>sec. sec \<in> set secs \<Longrightarrow>
      parseGroupText (bodyText (sec_name sec) (refsLine (sec_refs sec)) (sec_reason sec)) tabBatch =
      (if 2 \<le> length (validRefs tabBatch (sec_refs sec))
       then [\<lparr>s_name = sec_name sec, s_tabIds = validRefs tabBatch (sec_refs sec),
              s_color = None\<rparr>]
       else [])"
    using assms(2)
    by (simp add: list_all_iff wellFormedSection_def parseGroupText_body refsLine_no
        trim_refsLine groupTabIds_refsLine)
  then show ?thesis
    unfolding parseGroupAnalysis_def completionText_def
    using splitHeadings_sections[OF assms, of None "[]"]
    by (simp add: o_def cong: map_cong)
qed

text \<open>
  So the claim holds of the sections that name no tab twice: such a section gives a group
  exactly when it names at least two tabs of the batch.
\<close>

lemma parseGroupAnalysis_distinct:
  assumes "\<not> includesStr intro ''Group''" "list_all wellFormedSection secs"
    and "list_all (\<lambda>sec. distinct (validRefs tabBatch (sec_refs sec))) secs"
  shows "parseGroupAnalysis (completionText intro secs) tabBatch =
           concat (map (groupOf tabBatch) secs)"
proof -
  have "\<And>sec. sec \<in> set secs \<Longrightarrow>
      length (validRefs tabBatch (sec_refs sec)) = card (set (validRefs tabBatch (sec_refs sec)))"
    using assms(3) by (simp add: list_all_iff distinct_card)
  then show ?thesis
    unfolding parseGroupAnalysis_sections[OF assms(1,2)]
    by (simp add: groupOf_def cong: map_cong)
qed

lemma ordinalIds_valid: "set (ordinalIds t tabBatch) \<subseteq> set (map d_id tabBatch)"
  by (auto simp: ordinalIds_def Let_def split: if_splits)

lemma literalIds_valid: "set (literalIds t tabBatch) \<subseteq> set (map d_id tabBatch)"
  by (auto simp: literalIds_def split: option.splits if_splits)

lemma groupTabIds_valid: "set (groupTabIds t tabBatch) \<subseteq> set (map d_id tabBatch)"
  using ordinalIds_valid literalIds_valid by (simp add: groupTabIds_def)

lemma parseGroupText_out:
  assumes "g \<in> set (parseGroupText l tabBatch)"
  shows "2 \<le> length (s_tabIds g) \<and> set (s_tabIds g) \<subseteq> set (map d_id tabBatch)"
proof -
  from assms obtain m where "s_tabIds g = groupTabIds m tabBatch" "2 \<le> length (groupTabIds m tabBatch)"
    by (auto simp: parseGroupText_def Let_def split: if_splits option.splits)
  with groupTabIds_valid[of m tabBatch] show ?thesis by simp
qed

lemma parseGroupAnalysis_out:
  assumes "g \<in> set (parseGroupAnalysis analysisText tabBatch)"
  shows "2 \<le> length (s_tabIds g) \<and> set (s_tabIds g) \<subseteq> set (map d_id tabBatch)"
proof -
  from assms obtain l where "g \<in> set (parseGroupText l tabBatch)"
    by (auto simp: parseGroupAnalysis_def)
  then show ?thesis by (rule parseGroupText_out)
qed

lemma parseGroupAnalysis_sections_example:
  \<open>completionText ''Here you go:\<newline>''
     [\<lparr>sec_number = 1, sec_name = ''Work'', sec_refs = Ids [101, 102], sec_reason = ''both work''\<rparr>,
      \<lparr>sec_number = 2, sec_name = ''Play'', sec_refs = Ids [103, 999, 104], sec_reason = ''fun''\<rparr>,
      \<lparr>sec_number = 3, sec_name = ''Solo'', sec_refs = Ids [105, 888], sec_reason = ''alone''\<rparr>,
      \<lparr>sec_number = 4, sec_name = ''News'', sec_refs = TabNumbers [6, 0, 7, 9], sec_reason = ''press''\<rparr>,
      \<lparr>sec_number = 5, sec_name = ''Rest'', sec_refs = TabNumbers [1, 8], sec_reason = ''other''\<rparr>]
   = ''Here you go:\<newline>Group 1 Name: Work\<newline>- Tab IDs: 101, 102\<newline>- Reason: both work\<newline>\<newline>Group 2 Name: Play\<newline>- Tab IDs: 103, 999, 104\<newline>- Reason: fun\<newline>\<newline>Group 3 Name: Solo\<newline>- Tab IDs: 105, 888\<newline>- Reason: alone\<newline>\<newline>Group 4 Name: News\<newline>- Tab IDs: Tab 6, Tab 0, Tab 7, Tab 9\<newline>- Reason: press\<newline>\<newline>Group 5 Name: Rest\<newline>- Tab IDs: Tab 1, Tab 8\<newline>- Reason: other\<newline>\<newline>'' \<and>
   parseGroupAnalysis
     (completionText ''Here you go:\<newline>''
       [\<lparr>sec_number = 1, sec_name = ''Work'', sec_refs = Ids [101, 102], sec_reason = ''both work''\<rparr>,
        \<lparr>sec_number = 2, sec_name = ''Play'', sec_refs = Ids [103, 999, 104], sec_reason = ''fun''\<rparr>,
        \<lparr>sec_number = 3, sec_name = ''Solo'', sec_refs = Ids [105, 888], sec_reason = ''alone''\<rparr>,
        \<lparr>sec_number = 4, sec_name = ''News'', sec_refs = TabNumbers [6, 0, 7, 9], sec_reason = ''press''\<rparr>,
        \<lparr>sec_number = 5, sec_name = ''Rest'', sec_refs = TabNumbers [1, 8], sec_reason = ''other''\<rparr>])
     (exampleBatch [101, 102, 103, 104, 105, 106, 107])
   = [\<lparr>s_name = ''Work'', s_tabIds = [101, 102], s_color = None\<rparr>,
      \<lparr>s_name = ''Play'', s_tabIds = [103, 104], s_color = None\<rparr>,
      \<lparr>s_name = ''News'', s_tabIds = [106, 107], s_color = None\<rparr>]\<close>
proof -
  let ?secs = "[\<lparr>sec_number = 1, sec_name = ''Work'', sec_refs = Ids [101, 102], sec_reason = ''both work''\<rparr>,
      \<lparr>sec_number = 2, sec_name = ''Play'', sec_refs = Ids [103, 999, 104], sec_reason = ''fun''\<rparr>,
      \<lparr>sec_number = 3, sec_name = ''Solo'', sec_refs = Ids [105, 888], sec_reason = ''alone''\<rparr>,
      \<lparr>sec_number = 4, sec_name = ''News'', sec_refs = TabNumbers [6, 0, 7, 9], sec_reason = ''press''\<rparr>,
      \<lparr>sec_number = 5, sec_name = ''Rest'', sec_refs = TabNumbers [1, 8], sec_reason = ''other''\<rparr>]"
  let ?intro = "''Here you go:\<newline>''"
  let ?batch = "exampleBatch [101, 102, 103, 104, 105, 106, 107]"
  have shape: \<open>completionText ?intro ?secs = ''Here you go:\<newline>Group 1 Name: Work\<newline>- Tab IDs: 101, 102\<newline>- Reason: both work\<newline>\<newline>Group 2 Name: Play\<newline>- Tab IDs: 103, 999, 104\<newline>- Reason: fun\<newline>\<newline>Group 3 Name: Solo\<newline>- Tab IDs: 105, 888\<newline>- Reason: alone\<newline>\<newline>Group 4 Name: News\<newline>- Tab IDs: Tab 6, Tab 0, Tab 7, Tab 9\<newline>- Reason: press\<newline>\<newline>Group 5 Name: Rest\<newline>- Tab IDs: Tab 1, Tab 8\<newline>- Reason: other\<newline>\<newline>''\<close>
    by code_simp
  have intro: "\<not> includesStr ?intro ''Group''" by code_simp
  have wf: "list_all wellFormedSection ?secs" by code_simp
  have d: "list_all (\<lambda>sec. distinct (validRefs ?batch (sec_refs sec))) ?secs" by code_simp
  have out: "concat (map (groupOf ?batch) ?secs) =
      [\<lparr>s_name = ''Work'', s_tabIds = [101, 102], s_color = None\<rparr>,
       \<lparr>s_name = ''Play'', s_tabIds = [103, 104], s_color = None\<rparr>,
       \<lparr>s_name = ''News'', s_tabIds = [106, 107], s_color = None\<rparr>]"
    by code_simp
  from parseGroupAnalysis_distinct[OF intro wf d] out
  have "parseGroupAnalysis (completionText ?intro ?secs) ?batch =
      [\<lparr>s_name = ''Work'', s_tabIds = [101, 102], s_color = None\<rparr>,
       \<lparr>s_name = ''Play'', s_tabIds = [103, 104], s_color = None\<rparr>,
       \<lparr>s_name = ''News'', s_tabIds = [106, 107], s_color = None\<rparr>]"
    by simp
  with shape show ?thesis by simp
qed

text \<open>
  Claim C6. A section whose list names fewer than two tabs of the batch is to give no
  group: the parser's own comment keeps the groups \<^emph>\<open>with at least 2 tabs\<close>. The parser drops
  the entries that are no tabs of the batch and then counts the entries that are left, not
  the tabs: a section that names one tab twice gives a group of this one tab, with ids
  written out (first section) and with references \<^verbatim>\<open>Tab N\<close> (second section) alike, where a
  section that names one tab once gives none (third section).
\<close>

theorem parseGroupAnalysis_repeated_id:
  \<open>parseGroupAnalysis
     ''Here you go:\<newline>Group 1 Name: Work\<newline>- Tab IDs: 101, 999, 101\<newline>- Reason: the same page\<newline>\<newline>Group 2 Name: Play\<newline>- Tab IDs: Tab 2, Tab 9, Tab 2\<newline>- Reason: again\<newline>\<newline>Group 3 Name: Solo\<newline>- Tab IDs: 103, 888\<newline>- Reason: alone\<newline>\<newline>''
     (exampleBatch [101, 102, 103])
   = [\<lparr>s_name = ''Work'', s_tabIds = [101, 101], s_color = None\<rparr>,
      \<lparr>s_name = ''Play'', s_tabIds = [102, 102], s_color = None\<rparr>] \<and>
   map (\<lambda>g. remdups (s_tabIds g))
     (parseGroupAnalysis
       ''Here you go:\<newline>Group 1 Name: Work\<newline>- Tab IDs: 101, 999, 101\<newline>- Reason: the same page\<newline>\<newline>Group 2 Name: Play\<newline>- Tab IDs: Tab 2, Tab 9, Tab 2\<newline>- Reason: again\<newline>\<newline>Group 3 Name: Solo\<newline>- Tab IDs: 103, 888\<newline>- Reason: alone\<newline>\<newline>''
       (exampleBatch [101, 102, 103]))
   = [[101], [102]]\<close>
  by code_simp

end
